theory Spec2Isabelle
  imports Complex_Main "HOL-Library.AList" "HOL-Library.Multiset"
begin

section \<open>JavaScript values, strings and arrays\<close>

text \<open>
  Texts are strings of code units below 256. A component of an embedding is a JavaScript
  value: a number, a string, or one of the built-in members that every plain object
  inherits from \<open>Object.prototype\<close> (identified by the text its string conversion yields).
\<close>

datatype js_value = Num real | Str string | Native string

type_synonym embedding = "js_value list"

datatype error = Error string

text \<open>\<open>try { body } catch (error) { handler }\<close>\<close>

definition try_catch :: "(error + 'a) \<Rightarrow> (error \<Rightarrow> error + 'a) \<Rightarrow> error + 'a" where
  "try_catch body handler = (case body of Inl e \<Rightarrow> handler e | Inr v \<Rightarrow> Inr v)"

text \<open>\<open>xs[i]\<close>: \<open>undefined\<close> (here \<open>None\<close>) outside the array.\<close>

definition nth_opt :: "'a list \<Rightarrow> nat \<Rightarrow> 'a option" where
  "nth_opt xs i = (if i < length xs then Some (xs ! i) else None)"

text \<open>\<open>xs.slice(start, end)\<close> for non-negative indices.\<close>

definition slice :: "'a list \<Rightarrow> nat \<Rightarrow> nat \<Rightarrow> 'a list" where
  "slice xs start end = take (end - start) (drop start xs)"

text \<open>\<open>xs.slice(-n)\<close>: the last \<open>n\<close> elements.\<close>

definition slice_last :: "nat \<Rightarrow> 'a list \<Rightarrow> 'a list" where
  "slice_last n xs = drop (length xs - n) xs"

definition is_digit :: "char \<Rightarrow> bool" where
  "is_digit c = (let n = (of_char c :: nat) in 48 \<le> n \<and> n \<le> 57)"

text \<open>The class \<open>\w\<close> of a regular expression without flags: \<open>[A-Za-z0-9_]\<close>.\<close>

definition is_word_char :: "char \<Rightarrow> bool" where
  "is_word_char c = (let n = (of_char c :: nat) in
     (48 \<le> n \<and> n \<le> 57) \<or> (65 \<le> n \<and> n \<le> 90) \<or> n = 95 \<or> (97 \<le> n \<and> n \<le> 122))"

text \<open>
  \<open>toLowerCase\<close> on code units below 256: the ASCII capitals and the Latin-1 capitals
  (all of \<open>0xC0..0xDE\<close> but the multiplication sign) move up by 32.
\<close>

definition lower_char :: "char \<Rightarrow> char" where
  "lower_char c = (let n = (of_char c :: nat) in
     if (65 \<le> n \<and> n \<le> 90) \<or> (192 \<le> n \<and> n \<le> 222 \<and> n \<noteq> 215)
     then char_of (n + 32) else c)"

definition toLowerCase :: "string \<Rightarrow> string" where
  "toLowerCase s = map lower_char s"

text \<open>
  \<open>s.match(/\b\w+\b/g) || []\<close>: the maximal runs of word characters, left to right.
  \<open>cur\<close> is the run being read.
\<close>

fun match_words_from :: "string \<Rightarrow> string \<Rightarrow> string list" where
  "match_words_from cur [] = (if cur = [] then [] else [cur])"
| "match_words_from cur (c # cs) =
     (if is_word_char c then match_words_from (cur @ [c]) cs
      else if cur = [] then match_words_from [] cs
      else cur # match_words_from [] cs)"

definition match_words :: "string \<Rightarrow> string list" where
  "match_words s = match_words_from [] s"

fun digits_value_from :: "int \<Rightarrow> string \<Rightarrow> int" where
  "digits_value_from acc [] = acc"
| "digits_value_from acc (c # cs) = digits_value_from (10 * acc + (of_char c - 48)) cs"

definition digits_value :: "string \<Rightarrow> int" where
  "digits_value s = digits_value_from 0 s"

fun show_digits :: "nat \<Rightarrow> nat \<Rightarrow> string" where
  "show_digits 0 n = []"
| "show_digits (Suc fuel) n =
     (if n < 10 then [char_of (48 + n)]
      else show_digits fuel (n div 10) @ [char_of (48 + n mod 10)])"

text \<open>The decimal text of a natural number, as a template literal prints it.\<close>

definition show_nat :: "nat \<Rightarrow> string" where
  "show_nat n = show_digits (Suc n) n"

subsection \<open>Plain objects used as dictionaries\<close>

text \<open>
  An object literal \<open>{}\<close> is a list of own properties in creation order, and inherits the
  members of \<open>Object.prototype\<close>. The table gives, for each inherited name, the text that the
  member converts to when it is added to a number or a string.
\<close>

definition Object_prototype :: "string \<Rightarrow> string option" where
  "Object_prototype k =
     (if k = ''__proto__'' then Some ''[object Object]''
      else if k = ''constructor'' then Some ''function Object() { [native code] }''
      else if k \<in> set [''__defineGetter__'', ''__defineSetter__'', ''hasOwnProperty'',
                         ''__lookupGetter__'', ''__lookupSetter__'', ''isPrototypeOf'',
                         ''propertyIsEnumerable'', ''toString'', ''valueOf'', ''toLocaleString'']
      then Some (''function '' @ k @ ''() { [native code] }'')
      else None)"

type_synonym js_object = "(string \<times> js_value) list"

text \<open>\<open>obj[k]\<close>: the own property, else the inherited member, else \<open>undefined\<close>.\<close>

definition get_prop :: "js_object \<Rightarrow> string \<Rightarrow> js_value option" where
  "get_prop obj k =
     (case map_of obj k of
        Some v \<Rightarrow> Some v
      | None \<Rightarrow> map_option Native (Object_prototype k))"

text \<open>
  \<open>obj[k] = v\<close>: an own property keeps its place, a new one goes last. The name
  \<open>__proto__\<close> is an accessor of the prototype whose setter ignores a number or a string,
  so it never becomes an own property.
\<close>

definition set_prop :: "js_object \<Rightarrow> string \<Rightarrow> js_value \<Rightarrow> js_object" where
  "set_prop obj k v = (if k = ''__proto__'' then obj else AList.update k v obj)"

text \<open>\<open>v || 0\<close>: \<open>undefined\<close>, zero and the empty string are falsy.\<close>

definition or_zero :: "js_value option \<Rightarrow> js_value" where
  "or_zero v =
     (case v of
        None \<Rightarrow> Num 0
      | Some (Num x) \<Rightarrow> (if x = 0 then Num 0 else Num x)
      | Some (Str s) \<Rightarrow> (if s = [] then Num 0 else Str s)
      | Some (Native t) \<Rightarrow> Native t)"

text \<open>\<open>v + 1\<close>: addition on a number, concatenation with \<open>"1"\<close> on anything else.\<close>

definition add_one :: "js_value \<Rightarrow> js_value" where
  "add_one v =
     (case v of
        Num x \<Rightarrow> Num (x + 1)
      | Str s \<Rightarrow> Str (s @ ''1'')
      | Native t \<Rightarrow> Str (t @ ''1''))"

text \<open>
  A property name is an array index when it is the canonical decimal text of a number below
  \<open>2^32 - 1\<close>.
\<close>

definition is_array_index :: "string \<Rightarrow> bool" where
  "is_array_index k =
     (k \<noteq> [] \<and> list_all is_digit k \<and> (k = ''0'' \<or> hd k \<noteq> CHR ''0'')
      \<and> digits_value k < 4294967295)"

text \<open>
  \<open>Object.entries(obj)\<close>: the array-index names in ascending numeric order, then the other
  names in creation order.
\<close>

definition Object_entries :: "js_object \<Rightarrow> (string \<times> js_value) list" where
  "Object_entries obj =
     sort_key (\<lambda>p. digits_value (fst p)) (filter (\<lambda>p. is_array_index (fst p)) obj)
     @ filter (\<lambda>p. \<not> is_array_index (fst p)) obj"

text \<open>
  \<open>b - a\<close> on two property values: the difference of two numbers. The strings that
  \<open>add_one\<close> builds begin with \<open>function\<close> or \<open>[object\<close>, so they convert to \<open>NaN\<close>,
  here \<open>None\<close>.
\<close>

definition js_minus :: "js_value \<Rightarrow> js_value \<Rightarrow> real option" where
  "js_minus b a = (case (b, a) of (Num y, Num x) \<Rightarrow> Some (y - x) | _ \<Rightarrow> None)"

text \<open>
  Stable insertion: \<open>x\<close> stays in front of \<open>y\<close> unless \<open>cmp x y\<close> is positive.
\<close>

fun insert_cmp :: "('a \<Rightarrow> 'a \<Rightarrow> real option) \<Rightarrow> 'a \<Rightarrow> 'a list \<Rightarrow> 'a list" where
  "insert_cmp cmp x [] = [x]"
| "insert_cmp cmp x (y # ys) =
     (if (case cmp x y of Some d \<Rightarrow> 0 < d | None \<Rightarrow> False)
      then y # insert_cmp cmp x ys else x # y # ys)"

text \<open>
  The sort of the engine that the repository runs on (Node 18, whose \<open>Array.prototype.sort\<close>
  is V8's TimSort), for an array of fewer than 64 elements: such an array is one run. The
  engine calls the comparator and counts a result of \<open>NaN\<close> as zero.
\<close>

definition compare_fn :: "('a \<Rightarrow> 'a \<Rightarrow> real option) \<Rightarrow> 'a \<Rightarrow> 'a \<Rightarrow> real" where
  "compare_fn cmp x y = (case cmp x y of Some v \<Rightarrow> v | None \<Rightarrow> 0)"

text \<open>
  The loop of \<open>CountAndMakeRun\<close>: how many further elements continue the run that the first
  two elements began.
\<close>

fun run_tail :: "('a \<Rightarrow> 'a \<Rightarrow> real option) \<Rightarrow> bool \<Rightarrow> 'a \<Rightarrow> 'a list \<Rightarrow> nat" where
  "run_tail cmp isDescending previousElement [] = 0"
| "run_tail cmp isDescending previousElement (currentElement # rest) =
     (let order = compare_fn cmp currentElement previousElement
      in if (if isDescending then 0 \<le> order else order < 0) then 0
         else Suc (run_tail cmp isDescending currentElement rest))"

text \<open>
  \<open>CountAndMakeRun\<close>: the length of the run at the front of the array, which is strictly
  descending when the second element compares below the first and is then reversed in
  place; the array afterwards, and the length of the run.
\<close>

definition CountAndMakeRun :: "('a \<Rightarrow> 'a \<Rightarrow> real option) \<Rightarrow> 'a list \<Rightarrow> 'a list \<times> nat" where
  "CountAndMakeRun cmp work =
     (case work of
        elementHigh # elementLow # rest \<Rightarrow>
          (let isDescending = (compare_fn cmp elementLow elementHigh < 0);
               runLength = 2 + run_tail cmp isDescending elementLow rest
           in (if isDescending then rev (take runLength work) @ drop runLength work else work,
               runLength))
      | _ \<Rightarrow> (work, length work))"

text \<open>
  The binary search of \<open>BinaryInsertionSort\<close> for the place of \<open>pivot\<close> among the elements
  in front of it.
\<close>

function find_insertion_point ::
  "('a \<Rightarrow> 'a \<Rightarrow> real option) \<Rightarrow> 'a \<Rightarrow> 'a list \<Rightarrow> nat \<Rightarrow> nat \<Rightarrow> nat" where
  "find_insertion_point cmp pivot work left right =
     (if left < right then
        (let mid = left + (right - left) div 2
         in if compare_fn cmp pivot (work ! mid) < 0
            then find_insertion_point cmp pivot work left mid
            else find_insertion_point cmp pivot work (mid + 1) right)
      else left)"
  by pat_completeness auto

termination
  by (relation "measure (\<lambda>(cmp, pivot, work, left, right). right - left)") auto

text \<open>
  One round of \<open>BinaryInsertionSort\<close>: the element at \<open>start\<close> moves to its place, and the
  elements from there up to \<open>start\<close> move one position up.
\<close>

definition insert_pivot :: "('a \<Rightarrow> 'a \<Rightarrow> real option) \<Rightarrow> nat \<Rightarrow> 'a list \<Rightarrow> 'a list" where
  "insert_pivot cmp start work =
     (let pivot = work ! start;
          left = find_insertion_point cmp pivot work 0 start
      in take left work @ [pivot] @ take (start - left) (drop left work) @ drop (start + 1) work)"

definition BinaryInsertionSort :: "('a \<Rightarrow> 'a \<Rightarrow> real option) \<Rightarrow> 'a list \<Rightarrow> nat \<Rightarrow> 'a list" where
  "BinaryInsertionSort cmp work start = fold (insert_pivot cmp) [start..<length work] work"

text \<open>
  How the engine arranges an array of 64 or more elements whose comparator is not a
  consistent order (several runs, merged): the model leaves it open. It is some fixed
  function that permutes its argument; nothing else is known of it.
\<close>

definition engine_arrangement :: "('a \<Rightarrow> 'a \<Rightarrow> real option) \<Rightarrow> 'a list \<Rightarrow> 'a list" where
  "engine_arrangement = (SOME f. \<forall>cmp xs. mset (f cmp xs) = mset xs)"

declare engine_arrangement_def [code del]

text \<open>
  \<open>xs.sort(cmp)\<close> for a comparator that subtracts numbers. An array of at most one element
  is returned as it is, without a comparison. When every comparison within the array yields
  a number, the comparator is a consistent order and the result is the stable sort, as the
  language requires of every engine. When some comparison yields \<open>NaN\<close>, the result is what
  the engine's algorithm makes of it: for fewer than 64 elements, the run at the front
  followed by binary insertion of the other elements.
\<close>

definition js_sort :: "('a \<Rightarrow> 'a \<Rightarrow> real option) \<Rightarrow> 'a list \<Rightarrow> 'a list" where
  "js_sort cmp xs =
     (if length xs \<le> 1 \<or> list_all (\<lambda>x. list_all (\<lambda>y. cmp x y \<noteq> None) xs) xs
      then foldr (insert_cmp cmp) xs []
      else if length xs < 64
      then (case CountAndMakeRun cmp xs of
              (work, runLength) \<Rightarrow> BinaryInsertionSort cmp work runLength)
      else engine_arrangement cmp xs)"

section \<open>The fallback embedding\<close>

text \<open>The body of the \<open>forEach\<close> in \<open>createSimpleEmbedding\<close>.\<close>

definition count_word :: "js_object \<Rightarrow> string \<Rightarrow> js_object" where
  "count_word wordFreq w =
     (if 2 < length w then set_prop wordFreq w (add_one (or_zero (get_prop wordFreq w)))
      else wordFreq)"

definition createSimpleEmbedding :: "string \<Rightarrow> embedding" where
  "createSimpleEmbedding text =
     (let words = match_words (toLowerCase text);
          wordFreq = fold (\<lambda>w obj. count_word obj w) words [];
          topWords = take 100 (js_sort (\<lambda>a b. js_minus (snd b) (snd a)) (Object_entries wordFreq));
          vocab = map fst topWords;
          embedding = map (\<lambda>w. or_zero (get_prop wordFreq w)) vocab;
          padded = embedding @ replicate (768 - length embedding) (Num 0)
      in take 768 padded)"

text \<open>
  The reference bag of words, following the specification's wording: lowercase, split into
  words, drop the words of at most two characters, count, keep the 100 most frequent words
  (the word seen first wins a tie), emit their counts, pad with zeros or cut to 768.
\<close>

definition first_seen :: "'a list \<Rightarrow> 'a list" where
  "first_seen xs = rev (remdups (rev xs))"

definition bag_of_words :: "string \<Rightarrow> embedding" where
  "bag_of_words text =
     (let tokens = filter (\<lambda>w. 2 < length w) (match_words (toLowerCase text));
          vocabulary = take 100 (sort_key (\<lambda>w. - real (count_list tokens w)) (first_seen tokens));
          counts = map (\<lambda>w. Num (real (count_list tokens w))) vocabulary
      in take 768 (counts @ replicate (768 - length counts) (Num 0)))"

text \<open>
  The counting object after the words \<open>ts\<close> have been counted, when none of them is an
  inherited name: one entry per word, in first-seen order, with the word's count.
\<close>

definition freq_obj :: "string list \<Rightarrow> js_object" where
  "freq_obj ts = map (\<lambda>w. (w, Num (real (count_list ts w)))) (first_seen ts)"

text \<open>The key by which the comparator of the sort orders two entries with numeric values.\<close>

definition entry_key :: "string \<times> js_value \<Rightarrow> real" where
  "entry_key p = (case snd p of Num c \<Rightarrow> - c | _ \<Rightarrow> 0)"

definition is_Num :: "js_value \<Rightarrow> bool" where
  "is_Num v = (case v of Num c \<Rightarrow> True | _ \<Rightarrow> False)"

section \<open>Data model\<close>

record article =
  article_id :: string
  title :: string
  description :: string
  link :: string
  pubDate :: string
  fullText :: string
  source :: string

text \<open>
  An indexed point \<open>{id, vector, payload}\<close>. The payload carries the article's fields (its
  \<open>articleId\<close> is the article's \<open>id\<close>); the vector is \<open>None\<close> when the embedding array has no
  entry at the article's position.
\<close>

record point =
  point_id :: nat
  point_vector :: "embedding option"
  payload :: article

text \<open>A match \<open>{id, score, payload}\<close> returned by the vector index.\<close>

record hit =
  hit_id :: nat
  hit_score :: real
  hit_payload :: article

text \<open>A retrieval result: the article's fields and the score.\<close>

record retrieved = article +
  score :: real

record turn_source =
  ts_title :: string
  ts_link :: string
  ts_source :: string
  ts_score :: real

record turn =
  role :: string
  content :: string
  timestamp :: nat
  sources :: "turn_source list option"

record answer_source =
  as_title :: string
  as_link :: string
  as_pubDate :: string
  as_source :: string
  as_relevance :: string

record answer_result =
  answer :: string
  answer_sources :: "answer_source list"

record config =
  SESSION_TTL :: nat
  TOP_K_RESULTS :: nat
  MAX_ARTICLES :: nat
  BATCH_SIZE :: nat
  VECTOR_SIZE :: nat

definition CONFIG :: config where
  "CONFIG = \<lparr>SESSION_TTL = 3600, TOP_K_RESULTS = 20, MAX_ARTICLES = 100, BATCH_SIZE = 10,
     VECTOR_SIZE = 768\<rparr>"

section \<open>The collaborators and the state\<close>

text \<open>
  Every call to a collaborator is recorded, with its outcome, in a trace. The environment
  fixes what a collaborator answers to a request issued after \<open>n\<close> earlier calls, together
  with the built-in functions of the runtime that the services use.
\<close>

datatype event =
    JinaEmbed "string list" "error option" "error + embedding list"
  | QdrantUpsert "point list" "error option"
  | QdrantSearch "embedding option" nat "error + hit list"
  | RedisGet string "error + string option"
  | RedisSet string string nat "error option"
  | RedisDel string "error + nat"
  | GeminiGenerate string "error + string"
  | DateNow nat

record env =
  JINA_API_KEY :: "string option"
  jina_post :: "nat \<Rightarrow> string list \<Rightarrow> error + embedding list"
  upsert_reply :: "nat \<Rightarrow> point list \<Rightarrow> error option"
  search_reply :: "nat \<Rightarrow> (nat \<rightharpoonup> point) \<Rightarrow> embedding option \<Rightarrow> nat \<Rightarrow> error + hit list"
  redis_fault :: "nat \<Rightarrow> error option"
  gemini_reply :: "nat \<Rightarrow> string \<Rightarrow> error + string"
  clock :: "nat \<Rightarrow> nat"
  JSON_stringify :: "turn list \<Rightarrow> string"
  JSON_parse :: "string \<Rightarrow> error + turn list"
  toFixed1 :: "real \<Rightarrow> string"

text \<open>
  The state: the module's article list, the points of the collection, the key-value store
  (each value with the expiry it was written with) and the trace.
\<close>

record state =
  newsArticles :: "article list"
  collection :: "nat \<rightharpoonup> point"
  redis :: "string \<rightharpoonup> string \<times> nat"
  trace :: "event list"

definition log_event :: "event \<Rightarrow> state \<Rightarrow> state" where
  "log_event ev st = st\<lparr>trace := trace st @ [ev]\<rparr>"

text \<open>\<open>qdrantClient.upsert(collection, {wait: true, points})\<close>\<close>

definition qdrant_upsert :: "env \<Rightarrow> state \<Rightarrow> point list \<Rightarrow> (error + unit) \<times> state" where
  "qdrant_upsert env st points =
     (case upsert_reply env (length (trace st)) points of
        Some e \<Rightarrow> (Inl e, log_event (QdrantUpsert points (Some e)) st)
      | None \<Rightarrow>
          (Inr (),
           log_event (QdrantUpsert points None)
             (st\<lparr>collection := fold (\<lambda>p m. m(point_id p \<mapsto> p)) points (collection st)\<rparr>)))"

text \<open>\<open>qdrantClient.search(collection, {vector, limit, with_payload: true})\<close>\<close>

definition qdrant_search ::
  "env \<Rightarrow> state \<Rightarrow> embedding option \<Rightarrow> nat \<Rightarrow> (error + hit list) \<times> state" where
  "qdrant_search env st v limit =
     (let r = search_reply env (length (trace st)) (collection st) v limit
      in (r, log_event (QdrantSearch v limit r) st))"

text \<open>\<open>redisClient.get(key)\<close>: the stored string, or \<open>null\<close> (here \<open>None\<close>).\<close>

definition redis_get :: "env \<Rightarrow> state \<Rightarrow> string \<Rightarrow> (error + string option) \<times> state" where
  "redis_get env st key =
     (let r = (case redis_fault env (length (trace st)) of
                 Some e \<Rightarrow> Inl e
               | None \<Rightarrow> Inr (map_option fst (redis st key)))
      in (r, log_event (RedisGet key r) st))"

text \<open>\<open>redisClient.set(key, value, {EX: seconds})\<close>\<close>

definition redis_set ::
  "env \<Rightarrow> state \<Rightarrow> string \<Rightarrow> string \<Rightarrow> nat \<Rightarrow> (error + unit) \<times> state" where
  "redis_set env st key val ex =
     (case redis_fault env (length (trace st)) of
        Some e \<Rightarrow> (Inl e, log_event (RedisSet key val ex (Some e)) st)
      | None \<Rightarrow>
          (Inr (),
           log_event (RedisSet key val ex None) (st\<lparr>redis := (redis st)(key \<mapsto> (val, ex))\<rparr>)))"

text \<open>\<open>redisClient.del(key)\<close>: the number of keys removed.\<close>

definition redis_del :: "env \<Rightarrow> state \<Rightarrow> string \<Rightarrow> (error + nat) \<times> state" where
  "redis_del env st key =
     (case redis_fault env (length (trace st)) of
        Some e \<Rightarrow> (Inl e, log_event (RedisDel key (Inl e)) st)
      | None \<Rightarrow>
          (let n = (if redis st key = None then 0 else 1)
           in (Inr n, log_event (RedisDel key (Inr n)) (st\<lparr>redis := (redis st)(key := None)\<rparr>))))"

text \<open>\<open>(await geminiModel.generateContent(prompt)).response.text()\<close>\<close>

definition gemini_generate :: "env \<Rightarrow> state \<Rightarrow> string \<Rightarrow> (error + string) \<times> state" where
  "gemini_generate env st prompt =
     (let r = gemini_reply env (length (trace st)) prompt
      in (r, log_event (GeminiGenerate prompt r) st))"

text \<open>\<open>Date.now()\<close>\<close>

definition Date_now :: "env \<Rightarrow> state \<Rightarrow> nat \<times> state" where
  "Date_now env st =
     (let t = clock env (length (trace st)) in (t, log_event (DateNow t) st))"

section \<open>Embedding service\<close>

text \<open>
  The \<open>try\<close> block of \<open>getJinaBatchEmbeddings\<close>: the credential check, then the request with
  every text cut to 8000 characters. A rejected request, a response that is not \<open>ok\<close> and a
  body that cannot be read are the \<open>Inl\<close> answers of \<open>jina_post\<close>.
\<close>

definition jina_request :: "env \<Rightarrow> state \<Rightarrow> string list \<Rightarrow> error + embedding list" where
  "jina_request env st texts =
     (if JINA_API_KEY env = None \<or> JINA_API_KEY env = Some []
      then Inl (Error ''No Jina API key'')
      else jina_post env (length (trace st)) (map (take 8000) texts))"

definition getJinaBatchEmbeddings ::
  "env \<Rightarrow> state \<Rightarrow> string list \<Rightarrow> (error + embedding list) \<times> state" where
  "getJinaBatchEmbeddings env st texts =
     (let body = jina_request env st texts;
          r = try_catch body (\<lambda>error. Inr (map createSimpleEmbedding texts))
      in (r, log_event (JinaEmbed texts (case body of Inl e \<Rightarrow> Some e | Inr _ \<Rightarrow> None) r) st))"

definition getJinaEmbedding ::
  "env \<Rightarrow> state \<Rightarrow> string \<Rightarrow> (error + embedding option) \<times> state" where
  "getJinaEmbedding env st text =
     (case getJinaBatchEmbeddings env st [text] of
        (Inl e, st') \<Rightarrow> (Inl e, st')
      | (Inr embeddings, st') \<Rightarrow> (Inr (nth_opt embeddings 0), st'))"

section \<open>Ingestion\<close>

text \<open>
  \<open>Math.ceil(n / b)\<close> on two array-sized naturals: a division by zero gives \<open>Infinity\<close>, or
  \<open>NaN\<close> for \<open>0 / 0\<close>.
\<close>

datatype js_number = Finite nat | PosInfinity | NaN

definition Math_ceil_div :: "nat \<Rightarrow> nat \<Rightarrow> js_number" where
  "Math_ceil_div n b =
     (if b = 0 then (if n = 0 then NaN else PosInfinity) else Finite ((n + b - 1) div b))"

text \<open>\<open>i < t\<close>\<close>

definition js_less :: "nat \<Rightarrow> js_number \<Rightarrow> bool" where
  "js_less i t = (case t of Finite m \<Rightarrow> i < m | PosInfinity \<Rightarrow> True | NaN \<Rightarrow> False)"

definition make_points :: "nat \<Rightarrow> article list \<Rightarrow> embedding list \<Rightarrow> point list" where
  "make_points start batch embeddings =
     map (\<lambda>(article, idx).
            \<lparr>point_id = start + idx, point_vector = nth_opt embeddings idx, payload = article\<rparr>)
         (zip batch [0..<length batch])"

text \<open>The body of the loop of \<open>createArticleEmbeddings\<close> for batch \<open>i\<close>.\<close>

definition process_batch :: "config \<Rightarrow> env \<Rightarrow> state \<Rightarrow> nat \<Rightarrow> (error + unit) \<times> state" where
  "process_batch cfg env st i =
     (let batchSize = BATCH_SIZE cfg;
          start = i * batchSize;
          end = min (start + batchSize) (length (newsArticles st));
          batch = slice (newsArticles st) start end;
          texts = map fullText batch
      in case getJinaBatchEmbeddings env st texts of
           (Inl e, st1) \<Rightarrow> (Inl e, st1)
         | (Inr embeddings, st1) \<Rightarrow> qdrant_upsert env st1 (make_points start batch embeddings))"

partial_function (option) batch_loop ::
  "config \<Rightarrow> env \<Rightarrow> js_number \<Rightarrow> nat \<Rightarrow> state \<Rightarrow> ((error + unit) \<times> state) option" where
  "batch_loop cfg env totalBatches i st =
     (if js_less i totalBatches then
        (case process_batch cfg env st i of
           (Inl e, st') \<Rightarrow> Some (Inl e, st')
         | (Inr u, st') \<Rightarrow> batch_loop cfg env totalBatches (i + 1) st')
      else Some (Inr (), st))"

text \<open>\<open>None\<close>: the loop never ends.\<close>

definition createArticleEmbeddings ::
  "config \<Rightarrow> env \<Rightarrow> state \<Rightarrow> ((error + nat) \<times> state) option" where
  "createArticleEmbeddings cfg env st =
     (case batch_loop cfg env
             (Math_ceil_div (length (newsArticles st)) (BATCH_SIZE cfg)) 0 st of
        None \<Rightarrow> None
      | Some (Inl e, st') \<Rightarrow> Some (Inl e, st')
      | Some (Inr u, st') \<Rightarrow> Some (Inr (length (newsArticles st')), st'))"

section \<open>Retrieval\<close>

definition to_retrieved :: "hit \<Rightarrow> retrieved" where
  "to_retrieved result =
     \<lparr>article_id = article_id (hit_payload result),
      title = title (hit_payload result),
      description = description (hit_payload result),
      link = link (hit_payload result),
      pubDate = pubDate (hit_payload result),
      fullText = fullText (hit_payload result),
      source = source (hit_payload result),
      score = hit_score result\<rparr>"

text \<open>The second argument is \<open>None\<close> when the caller leaves \<open>topK\<close> out.\<close>

definition retrieveRelevantArticles ::
  "config \<Rightarrow> env \<Rightarrow> state \<Rightarrow> string \<Rightarrow> nat option \<Rightarrow> (error + retrieved list) \<times> state" where
  "retrieveRelevantArticles cfg env st query topK_arg =
     (let topK = (case topK_arg of None \<Rightarrow> TOP_K_RESULTS cfg | Some k \<Rightarrow> k)
      in case getJinaEmbedding env st query of
           (Inl e, st1) \<Rightarrow> (Inl e, st1)
         | (Inr queryEmbedding, st1) \<Rightarrow>
             (case qdrant_search env st1 queryEmbedding topK of
                (Inl e, st2) \<Rightarrow> (Inl e, st2)
              | (Inr searchResult, st2) \<Rightarrow> (Inr (map to_retrieved searchResult), st2)))"

section \<open>Answer generation and chat history\<close>

definition nl :: string where
  "nl = [CHR 0x0A]"

text \<open>\<open>xs.join(sep)\<close>\<close>

fun join :: "string \<Rightarrow> string list \<Rightarrow> string" where
  "join sep [] = []"
| "join sep [x] = x"
| "join sep (x # y # ys) = x @ sep @ join sep (y # ys)"

definition render_source :: "env \<Rightarrow> retrieved \<times> nat \<Rightarrow> string" where
  "render_source env = (\<lambda>(article, i).
     ''[Source '' @ show_nat (i + 1) @ ''] ('' @ source article @ '' - Relevance: ''
       @ toFixed1 env (score article * 100) @ ''%)'' @ nl
     @ ''Title: '' @ title article @ nl
     @ ''Content: '' @ description article @ nl
     @ ''URL: '' @ link article @ nl
     @ ''Published: '' @ pubDate article)"

definition render_context :: "env \<Rightarrow> retrieved list \<Rightarrow> string" where
  "render_context env relevantArticles =
     join (nl @ nl) (map (render_source env) (zip relevantArticles [0..<length relevantArticles]))"

definition render_turn :: "turn \<Rightarrow> string" where
  "render_turn h = (if role h = ''user'' then ''User'' else ''Assistant'') @ '': '' @ content h"

definition conversationContext :: "turn list \<Rightarrow> string" where
  "conversationContext history =
     (if 0 < length history
      then nl @ nl @ ''Previous conversation:'' @ nl
           @ join nl (map render_turn (slice_last 6 history))
      else [])"

definition build_prompt :: "string \<Rightarrow> string \<Rightarrow> string \<Rightarrow> string" where
  "build_prompt context conversation query =
     ''You are a knowledgeable and helpful news assistant. Your task is to answer the user's question based on the provided news articles.'' @ nl
     @ nl
     @ ''Guidelines:'' @ nl
     @ ''- Provide accurate, well-informed answers based on the sources'' @ nl
     @ ''- Use clear headings with ## for main topics  '' @ nl
     @ ''- Use bullet points (-) for lists'' @ nl
     @ ''- Write in a conversational, friendly tone'' @ nl
     @ ''- Cite specific sources when referencing information (e.g., '' @ [CHR 0x22]
       @ ''According to Source 1...'' @ [CHR 0x22] @ '')'' @ nl
     @ ''- Keep paragraphs short (2-3 sentences max)'' @ nl
     @ ''- If the articles don't contain enough information, acknowledge this'' @ nl
     @ nl
     @ ''News Sources (with relevance scores and sources):'' @ nl
     @ context @ nl
     @ conversation @ nl
     @ nl
     @ ''User Question: '' @ query @ nl
     @ nl
     @ ''Please provide a clear, well-formatted answer using markdown:''"

definition session_key :: "string \<Rightarrow> string" where
  "session_key sessionId = ''session:'' @ sessionId"

text \<open>\<open>historyJson ? JSON.parse(historyJson) : []\<close>: \<open>null\<close> and the empty string are falsy.\<close>

definition parse_history :: "env \<Rightarrow> string option \<Rightarrow> error + turn list" where
  "parse_history env historyJson =
     (case historyJson of
        None \<Rightarrow> Inr []
      | Some s \<Rightarrow> (if s = [] then Inr [] else JSON_parse env s))"

definition user_turn :: "string \<Rightarrow> nat \<Rightarrow> turn" where
  "user_turn query t = \<lparr>role = ''user'', content = query, timestamp = t, sources = None\<rparr>"

definition history_source :: "retrieved \<Rightarrow> turn_source" where
  "history_source a =
     \<lparr>ts_title = title a, ts_link = link a, ts_source = source a, ts_score = score a\<rparr>"

definition assistant_turn :: "string \<Rightarrow> nat \<Rightarrow> retrieved list \<Rightarrow> turn" where
  "assistant_turn ans t relevantArticles =
     \<lparr>role = ''assistant'', content = ans, timestamp = t,
      sources = Some (map history_source relevantArticles)\<rparr>"

definition caller_source :: "env \<Rightarrow> retrieved \<Rightarrow> answer_source" where
  "caller_source env a =
     \<lparr>as_title = title a, as_link = link a, as_pubDate = pubDate a, as_source = source a,
      as_relevance = toFixed1 env (score a * 100) @ ''%''\<rparr>"

text \<open>
  The first part of \<open>generateAnswer\<close>, up to the answer of the language model: retrieval,
  the source block, the stored history, the prompt and the call of the model. It yields the
  retrieved articles, the history read and the answer.
\<close>

definition produce_answer ::
  "config \<Rightarrow> env \<Rightarrow> state \<Rightarrow> string \<Rightarrow> string
     \<Rightarrow> (error + retrieved list \<times> turn list \<times> string) \<times> state" where
  "produce_answer cfg env st query sessionId =
     (case retrieveRelevantArticles cfg env st query None of
        (Inl e, st1) \<Rightarrow> (Inl e, st1)
      | (Inr relevantArticles, st1) \<Rightarrow>
     (let context = render_context env relevantArticles
      in case redis_get env st1 (session_key sessionId) of
        (Inl e, st2) \<Rightarrow> (Inl e, st2)
      | (Inr historyJson, st2) \<Rightarrow>
     (case parse_history env historyJson of
        Inl e \<Rightarrow> (Inl e, st2)
      | Inr history \<Rightarrow>
     (let prompt = build_prompt context (conversationContext history) query
      in case gemini_generate env st2 prompt of
        (Inl e, st3) \<Rightarrow> (Inl e, st3)
      | (Inr ans, st3) \<Rightarrow> (Inr (relevantArticles, history, ans), st3)))))"

text \<open>
  \<open>generateAnswer\<close>: after the answer, the two pushes onto the history, the write to the
  store and the result. Its \<open>catch\<close> logs the error and throws it again, so the failure of
  any step is the failure of the call.
\<close>

definition generateAnswer ::
  "config \<Rightarrow> env \<Rightarrow> state \<Rightarrow> string \<Rightarrow> string \<Rightarrow> (error + answer_result) \<times> state" where
  "generateAnswer cfg env st query sessionId =
     (case produce_answer cfg env st query sessionId of
        (Inl e, st3) \<Rightarrow> (Inl e, st3)
      | (Inr (relevantArticles, history, ans), st3) \<Rightarrow>
     (let (t1, st4) = Date_now env st3;
          history1 = history @ [user_turn query t1];
          (t2, st5) = Date_now env st4;
          history2 = history1 @ [assistant_turn ans t2 relevantArticles]
      in case redis_set env st5 (session_key sessionId) (JSON_stringify env history2)
                (SESSION_TTL cfg) of
        (Inl e, st6) \<Rightarrow> (Inl e, st6)
      | (Inr u, st6) \<Rightarrow>
          (Inr \<lparr>answer = ans, answer_sources = map (caller_source env) relevantArticles\<rparr>,
           st6)))"

text \<open>\<open>getChatHistory\<close>: its \<open>catch\<close> logs the error and returns the empty array.\<close>

definition getChatHistory :: "env \<Rightarrow> state \<Rightarrow> string \<Rightarrow> (error + turn list) \<times> state" where
  "getChatHistory env st sessionId =
     (case redis_get env st (session_key sessionId) of
        (r, st1) \<Rightarrow>
          (try_catch (case r of Inl e \<Rightarrow> Inl e | Inr historyJson \<Rightarrow> parse_history env historyJson)
             (\<lambda>error. Inr []),
           st1))"

text \<open>\<open>clearSession\<close>: its \<open>catch\<close> logs the error and throws it again.\<close>

definition clearSession :: "env \<Rightarrow> state \<Rightarrow> string \<Rightarrow> (error + bool) \<times> state" where
  "clearSession env st sessionId =
     (case redis_del env st (session_key sessionId) of
        (Inl e, st1) \<Rightarrow> (Inl e, st1)
      | (Inr deleted, st1) \<Rightarrow> (Inr (0 < deleted), st1))"

section \<open>Properties of a trace\<close>

text \<open>The events that change the key-value store.\<close>

fun is_store_write :: "event \<Rightarrow> bool" where
  "is_store_write (RedisSet key val ex r) = True"
| "is_store_write (RedisDel key r) = True"
| "is_store_write ev = False"

text \<open>
  Readings of a trace: the texts of each call of the embedding service, the points that the
  index accepted and the errors of the upserts that it refused.
\<close>

fun embed_call :: "event \<Rightarrow> string list list" where
  "embed_call (JinaEmbed texts b r) = [texts]"
| "embed_call ev = []"

fun upserted_by :: "event \<Rightarrow> point list" where
  "upserted_by (QdrantUpsert ps None) = ps"
| "upserted_by ev = []"

fun upsert_failure :: "event \<Rightarrow> error list" where
  "upsert_failure (QdrantUpsert ps (Some e)) = [e]"
| "upsert_failure ev = []"

text \<open>
  The shape of an ingestion trace that begins after \<open>n\<close> earlier calls, read against the
  environment. Each call of the embedding service is followed by the upsert of one point per
  text of the call, the point of a text carrying that text in its payload. When the
  credential is missing or empty, or the provider fails the request issued at this position,
  the call records the error and returns the fallback vector of each of its texts, and these
  are the vectors of the points upserted; when the provider answers, the call returns the
  provider's vectors and the point at position \<open>idx\<close> carries the vector at position \<open>idx\<close>.
  The outcome of the upsert is the reply of the index at its position, and nothing follows
  an upsert that the index refused.
\<close>

fun ingestion_ok :: "env \<Rightarrow> nat \<Rightarrow> event list \<Rightarrow> bool" where
  "ingestion_ok env n [] = True"
| "ingestion_ok env n (JinaEmbed texts b r # QdrantUpsert ps ro # tr) =
     (map (\<lambda>p. fullText (payload p)) ps = texts
      \<and> (case (if JINA_API_KEY env = None \<or> JINA_API_KEY env = Some []
                then Inl (Error ''No Jina API key'')
                else jina_post env n (map (take 8000) texts)) of
           Inl e \<Rightarrow>
             b = Some e \<and> r = Inr (map createSimpleEmbedding texts)
           \<and> map point_vector ps = map (\<lambda>t. Some (createSimpleEmbedding t)) texts
         | Inr vs \<Rightarrow>
             b = None \<and> r = Inr vs
           \<and> map point_vector ps = map (nth_opt vs) [0..<length texts])
      \<and> ro = upsert_reply env (Suc n) ps
      \<and> (ro \<noteq> None \<longrightarrow> tr = [])
      \<and> ingestion_ok env (n + 2) tr)"
| "ingestion_ok env n tr = False"

definition embed_calls :: "event list \<Rightarrow> string list list" where
  "embed_calls tr = concat (map embed_call tr)"

definition upserted :: "event list \<Rightarrow> point list" where
  "upserted tr = concat (map upserted_by tr)"

definition upsert_failures :: "event list \<Rightarrow> error list" where
  "upsert_failures tr = concat (map upsert_failure tr)"

text \<open>The articles of batch \<open>j\<close>, as the loop slices them.\<close>

definition batch_at :: "nat \<Rightarrow> article list \<Rightarrow> nat \<Rightarrow> article list" where
  "batch_at batchSize articles j =
     slice articles (j * batchSize) (min (j * batchSize + batchSize) (length articles))"

text \<open>
  Serialising a history and parsing it back gives the history again (and the text of a
  serialised array is never empty).
\<close>

definition json_round_trip :: "env \<Rightarrow> turn list \<Rightarrow> bool" where
  "json_round_trip env h =
     (JSON_stringify env h \<noteq> [] \<and> JSON_parse env (JSON_stringify env h) = Inr h)"

text \<open>
  The limit and the order of a search: at most \<open>limit\<close> matches, best score first.
\<close>

definition limit_order_contract :: "nat \<Rightarrow> hit list \<Rightarrow> bool" where
  "limit_order_contract limit hits =
     (length hits \<le> limit \<and> sorted_wrt (\<lambda>a b. hit_score b \<le> hit_score a) hits)"

text \<open>
  A search that, beyond its limit and order, is complete: each match is a different point
  of the collection with that point's payload, and there are as many matches as points when
  the collection holds fewer than \<open>limit\<close>.
\<close>

definition search_contract :: "(nat \<rightharpoonup> point) \<Rightarrow> nat \<Rightarrow> hit list \<Rightarrow> bool" where
  "search_contract coll limit hits =
     (length hits \<le> limit
      \<and> sorted_wrt (\<lambda>a b. hit_score b \<le> hit_score a) hits
      \<and> distinct (map hit_id hits)
      \<and> list_all (\<lambda>h. map_option payload (coll (hit_id h)) = Some (hit_payload h)) hits
      \<and> (card (dom coll) < limit \<longrightarrow> length hits = card (dom coll)))"

section \<open>Example environments\<close>

definition st0 :: state where
  "st0 = \<lparr>newsArticles = [], collection = Map.empty, redis = Map.empty, trace = []\<rparr>"

text \<open>
  A run in which every collaborator answers: an embedding provider that returns a
  one-component vector per text, an index that finds nothing, a store that works, a model
  that answers \<open>ok\<close>.
\<close>

definition env0 :: env where
  "env0 =
     \<lparr>JINA_API_KEY = Some ''key'',
      jina_post = (\<lambda>n texts. Inr (map (\<lambda>t. [Num 1]) texts)),
      upsert_reply = (\<lambda>n points. None),
      search_reply = (\<lambda>n coll v limit. Inr []),
      redis_fault = (\<lambda>n. None),
      gemini_reply = (\<lambda>n prompt. Inr ''ok''),
      clock = (\<lambda>n. n),
      JSON_stringify = (\<lambda>h. if h = [] then ''[]'' else ''[...]''),
      JSON_parse = (\<lambda>s. if s = ''[]'' then Inr [] else Inl (Error ''Unexpected token'')),
      toFixed1 = (\<lambda>x. ''0.0'')\<rparr>"

definition env_store_down :: env where
  "env_store_down = env0\<lparr>redis_fault := (\<lambda>n. Some (Error ''Connection is closed''))\<rparr>"

text \<open>The store answers the read of the history and fails from then on.\<close>

definition env_write_fails :: env where
  "env_write_fails =
     env0\<lparr>redis_fault := (\<lambda>n. if n \<le> 2 then None else Some (Error ''Connection is closed''))\<rparr>"

definition env_search_down :: env where
  "env_search_down = env0\<lparr>search_reply := (\<lambda>n coll v limit. Inl (Error ''Bad Gateway''))\<rparr>"

definition env_model_down :: env where
  "env_model_down = env0\<lparr>gemini_reply := (\<lambda>n prompt. Inl (Error ''quota exceeded''))\<rparr>"

text \<open>A store that holds a text under \<open>session:s1\<close> which is not a serialised history.\<close>

definition st_corrupt :: state where
  "st_corrupt = st0\<lparr>redis := [''session:s1'' \<mapsto> (''{'', 3600)]\<rparr>"

text \<open>Two indexed articles that every search finds, best match first.\<close>

definition article_a :: article where
  "article_a =
     \<lparr>article_id = ''RSS Feed-0'', title = ''Chip maker unveils new processor'',
      description = ''A new processor was announced.'', link = ''https://example.org/a'',
      pubDate = ''Mon, 01 Dec 2025 10:00:00 GMT'',
      fullText = ''Chip maker unveils new processor A new processor was announced.'',
      source = ''RSS Feed''\<rparr>"

definition article_b :: article where
  "article_b =
     \<lparr>article_id = ''RSS Feed-1'', title = ''Markets close higher'',
      description = ''Shares rose on Monday.'', link = ''https://example.org/b'',
      pubDate = ''Mon, 01 Dec 2025 11:00:00 GMT'',
      fullText = ''Markets close higher Shares rose on Monday.'',
      source = ''RSS Feed''\<rparr>"

definition article_c :: article where
  "article_c =
     \<lparr>article_id = ''TechCrunch-0'', title = ''Startup raises funds'',
      description = ''A funding round closed.'', link = ''https://example.org/c'',
      pubDate = ''2025-12-01T12:00:00.000Z'',
      fullText = ''Startup raises funds A funding round closed.'',
      source = ''TechCrunch''\<rparr>"

definition hit_a :: hit where
  "hit_a = \<lparr>hit_id = 0, hit_score = 9 / 10, hit_payload = article_a\<rparr>"

definition hit_b :: hit where
  "hit_b = \<lparr>hit_id = 1, hit_score = 1 / 2, hit_payload = article_b\<rparr>"

text \<open>
  The history that the first question of session \<open>s1\<close> leaves behind in the run below, and
  an environment whose serialiser knows this history.
\<close>

definition history_s1 :: "turn list" where
  "history_s1 =
     [\<lparr>role = ''user'', content = ''What happened in tech?'', timestamp = 4, sources = None\<rparr>,
      \<lparr>role = ''assistant'', content = ''ok'', timestamp = 5,
       sources = Some
         [\<lparr>ts_title = ''Chip maker unveils new processor'', ts_link = ''https://example.org/a'',
           ts_source = ''RSS Feed'', ts_score = 9 / 10\<rparr>,
          \<lparr>ts_title = ''Markets close higher'', ts_link = ''https://example.org/b'',
           ts_source = ''RSS Feed'', ts_score = 1 / 2\<rparr>]\<rparr>]"

definition env_found :: env where
  "env_found =
     env0\<lparr>search_reply := (\<lambda>n coll v limit. Inr (take limit [hit_a, hit_b])),
          JSON_stringify :=
            (\<lambda>h. if h = [] then ''[]'' else if h = history_s1 then ''[user,assistant]''
                  else ''[...]''),
          JSON_parse :=
            (\<lambda>s. if s = ''[]'' then Inr [] else if s = ''[user,assistant]'' then Inr history_s1
                  else Inl (Error ''Unexpected token''))\<rparr>"

text \<open>The collection after the two articles have been indexed.\<close>

definition st_indexed :: state where
  "st_indexed =
     st0\<lparr>newsArticles := [article_a, article_b],
         collection :=
           [0 \<mapsto> \<lparr>point_id = 0, point_vector = Some [Num 1], payload = article_a\<rparr>,
            1 \<mapsto> \<lparr>point_id = 1, point_vector = Some [Num 1], payload = article_b\<rparr>]\<rparr>"

text \<open>No credential for the embedding provider; a provider that rejects every request.\<close>

definition env_no_key :: env where
  "env_no_key = env0\<lparr>JINA_API_KEY := None\<rparr>"

definition env_jina_down :: env where
  "env_jina_down = env0\<lparr>jina_post := (\<lambda>n texts. Inl (Error ''Jina API error 503: busy''))\<rparr>"

text \<open>Three articles to ingest in batches of two; an index that refuses every upsert.\<close>

definition st_three :: state where
  "st_three = st0\<lparr>newsArticles := [article_a, article_b, article_c]\<rparr>"

definition cfg_two :: config where
  "cfg_two = CONFIG\<lparr>BATCH_SIZE := 2\<rparr>"

definition env_upsert_down :: env where
  "env_upsert_down = env0\<lparr>upsert_reply := (\<lambda>n points. Some (Error ''Service Unavailable''))\<rparr>"

section \<open>Basic facts about the collaborators\<close>

lemma log_event_simps [simp]:
  "trace (log_event ev st) = trace st @ [ev]"
  "redis (log_event ev st) = redis st"
  "collection (log_event ev st) = collection st"
  "newsArticles (log_event ev st) = newsArticles st"
  by (simp_all add: log_event_def)

section \<open>Chat history\<close>

lemma getChatHistory_total: "\<exists>h. fst (getChatHistory env st sessionId) = Inr h"
  by (simp add: getChatHistory_def try_catch_def redis_get_def Let_def
      split: sum.splits option.splits)

text \<open>
  C2 as claimed fails: with a store whose read fails, \<open>getChatHistory\<close> returns the empty
  history as a successful result.
\<close>

theorem getChatHistory_store_down_counterexample:
  "redis_fault env_store_down (length (trace st0)) = Some (Error ''Connection is closed'')
   \<and> fst (getChatHistory env_store_down st0 ''s1'') = Inr []"
  by (simp add: getChatHistory_def try_catch_def redis_get_def Let_def env_store_down_def
      env0_def st0_def)

text \<open>
  C2, amended: when the store's read fails, \<open>getChatHistory\<close> catches the error and returns
  the empty history as a successful result, leaving the store as it was; an explicit delete
  (\<open>clearSession\<close>) that meets the same failure does surface the error to the caller.
\<close>

theorem getChatHistory_swallows_store_error:
  assumes "redis_fault env (length (trace st)) = Some e"
  shows "fst (getChatHistory env st sessionId) = Inr []
     \<and> redis (snd (getChatHistory env st sessionId)) = redis st
     \<and> fst (clearSession env st sessionId) = Inl e"
  using assms
  by (simp add: getChatHistory_def clearSession_def try_catch_def redis_get_def redis_del_def
      Let_def)

theorem getChatHistory_swallows_store_error_witness:
  "redis_fault env_store_down (length (trace st0)) = Some (Error ''Connection is closed'')
   \<and> fst (getChatHistory env_store_down st0 ''s1'') = Inr []
   \<and> redis (snd (getChatHistory env_store_down st0 ''s1'')) = redis st0
   \<and> fst (clearSession env_store_down st0 ''s1'') = Inl (Error ''Connection is closed'')"
proof -
  have down: "redis_fault env_store_down (length (trace st0))
      = Some (Error ''Connection is closed'')"
    by (simp add: env_store_down_def)
  from getChatHistory_swallows_store_error [OF down, of "''s1''"] down
  show ?thesis by simp
qed

section \<open>Answer generation\<close>

lemma retrieveRelevantArticles_frame:
  assumes "retrieveRelevantArticles cfg env st query k = (r, st')"
  shows "redis st' = redis st \<and> collection st' = collection st
     \<and> newsArticles st' = newsArticles st
     \<and> (\<exists>tr. trace st' = trace st @ tr \<and> filter is_store_write tr = [])"
  using assms
  by (auto simp: retrieveRelevantArticles_def getJinaEmbedding_def getJinaBatchEmbeddings_def
      qdrant_search_def Let_def split: prod.splits sum.splits)

lemma produce_answer_frame:
  assumes "produce_answer cfg env st query sessionId = (r, st')"
  shows "redis st' = redis st
     \<and> (\<exists>tr. trace st' = trace st @ tr \<and> filter is_store_write tr = [])"
  using assms
  apply (simp add: produce_answer_def Let_def split: prod.splits sum.splits)
  apply (auto dest!: retrieveRelevantArticles_frame simp: redis_get_def gemini_generate_def Let_def)
  done

lemma generateAnswer_after_failure:
  assumes "produce_answer cfg env st query sessionId = (Inl e, st3)"
  shows "generateAnswer cfg env st query sessionId = (Inl e, st3)"
  using assms by (simp add: generateAnswer_def)

text \<open>Unfolding a run on a concrete environment.\<close>

lemmas run_defs =
  generateAnswer_def produce_answer_def retrieveRelevantArticles_def getJinaEmbedding_def
  getJinaBatchEmbeddings_def qdrant_search_def Let_def jina_request_def try_catch_def
  redis_get_def parse_history_def gemini_generate_def Date_now_def redis_set_def
  getChatHistory_def log_event_def nth_opt_def session_key_def

lemma search_down_run:
  "fst (retrieveRelevantArticles CONFIG env_search_down st0 ''q'' None)
     = Inl (Error ''Bad Gateway'')"
  by (simp add: run_defs env_search_down_def env0_def st0_def)

lemma store_down_run:
  "retrieveRelevantArticles CONFIG env_store_down st0 ''q'' None
     = (Inr [], snd (retrieveRelevantArticles CONFIG env_store_down st0 ''q'' None))
   \<and> fst (redis_get env_store_down
            (snd (retrieveRelevantArticles CONFIG env_store_down st0 ''q'' None))
            (session_key ''s1''))
     = Inl (Error ''Connection is closed'')"
  by (simp add: run_defs env_store_down_def env0_def st0_def)

lemma corrupt_run:
  "retrieveRelevantArticles CONFIG env0 st_corrupt ''q'' None
     = (Inr [], snd (retrieveRelevantArticles CONFIG env0 st_corrupt ''q'' None))
   \<and> redis_get env0 (snd (retrieveRelevantArticles CONFIG env0 st_corrupt ''q'' None))
        (session_key ''s1'')
     = (Inr (Some ''{''),
        snd (redis_get env0 (snd (retrieveRelevantArticles CONFIG env0 st_corrupt ''q'' None))
               (session_key ''s1'')))
   \<and> parse_history env0 (Some ''{'') = Inl (Error ''Unexpected token'')"
  by (simp add: run_defs env0_def st_corrupt_def st0_def)

lemma model_down_run:
  "retrieveRelevantArticles CONFIG env_model_down st0 ''q'' None
     = (Inr [], snd (retrieveRelevantArticles CONFIG env_model_down st0 ''q'' None))
   \<and> redis_get env_model_down
        (snd (retrieveRelevantArticles CONFIG env_model_down st0 ''q'' None))
        (session_key ''s1'')
     = (Inr None,
        snd (redis_get env_model_down
               (snd (retrieveRelevantArticles CONFIG env_model_down st0 ''q'' None))
               (session_key ''s1'')))
   \<and> parse_history env_model_down None = Inr []
   \<and> fst (gemini_generate env_model_down
            (snd (redis_get env_model_down
                    (snd (retrieveRelevantArticles CONFIG env_model_down st0 ''q'' None))
                    (session_key ''s1'')))
            (build_prompt (render_context env_model_down []) (conversationContext []) ''q''))
     = Inl (Error ''quota exceeded'')"
  by (simp add: run_defs env_model_down_def env0_def st0_def)

text \<open>
  C3: if retrieval, the read of the history, its parsing or the call of the language model
  fails, \<open>generateAnswer\<close> fails with that error, the store is as it was before the call and
  the call has issued no write to it. (Building the prompt is a pure computation on strings
  and has no failing case.)
\<close>

theorem generateAnswer_failure_no_mutation:
  assumes "fst (retrieveRelevantArticles cfg env st query None) = Inl e
    \<or> (\<exists>arts st1. retrieveRelevantArticles cfg env st query None = (Inr arts, st1)
         \<and> fst (redis_get env st1 (session_key sessionId)) = Inl e)
    \<or> (\<exists>arts st1 historyJson st2.
           retrieveRelevantArticles cfg env st query None = (Inr arts, st1)
         \<and> redis_get env st1 (session_key sessionId) = (Inr historyJson, st2)
         \<and> parse_history env historyJson = Inl e)
    \<or> (\<exists>arts st1 historyJson st2 history.
           retrieveRelevantArticles cfg env st query None = (Inr arts, st1)
         \<and> redis_get env st1 (session_key sessionId) = (Inr historyJson, st2)
         \<and> parse_history env historyJson = Inr history
         \<and> fst (gemini_generate env st2
                   (build_prompt (render_context env arts) (conversationContext history) query))
             = Inl e)"
  shows "fst (generateAnswer cfg env st query sessionId) = Inl e
       \<and> redis (snd (generateAnswer cfg env st query sessionId)) = redis st
       \<and> (\<exists>tr. trace (snd (generateAnswer cfg env st query sessionId)) = trace st @ tr
               \<and> filter is_store_write tr = [])"
proof -
  have "fst (produce_answer cfg env st query sessionId) = Inl e"
    using assms
    by (auto simp: produce_answer_def Let_def split: prod.splits sum.splits)
  then obtain st3 where p: "produce_answer cfg env st query sessionId = (Inl e, st3)"
    by (cases "produce_answer cfg env st query sessionId") auto
  from produce_answer_frame [OF p] generateAnswer_after_failure [OF p]
  show ?thesis by simp
qed

theorem generateAnswer_failure_no_mutation_witness:
  "fst (generateAnswer CONFIG env_search_down st0 ''q'' ''s1'') = Inl (Error ''Bad Gateway'')
   \<and> redis (snd (generateAnswer CONFIG env_search_down st0 ''q'' ''s1'')) = redis st0
   \<and> fst (generateAnswer CONFIG env_store_down st0 ''q'' ''s1'')
       = Inl (Error ''Connection is closed'')
   \<and> redis (snd (generateAnswer CONFIG env_store_down st0 ''q'' ''s1'')) = redis st0
   \<and> fst (generateAnswer CONFIG env0 st_corrupt ''q'' ''s1'') = Inl (Error ''Unexpected token'')
   \<and> redis (snd (generateAnswer CONFIG env0 st_corrupt ''q'' ''s1'')) = redis st_corrupt
   \<and> fst (generateAnswer CONFIG env_model_down st0 ''q'' ''s1'') = Inl (Error ''quota exceeded'')
   \<and> redis (snd (generateAnswer CONFIG env_model_down st0 ''q'' ''s1'')) = redis st0"
proof -
  have a: "fst (generateAnswer CONFIG env_search_down st0 ''q'' ''s1'')
        = Inl (Error ''Bad Gateway'')
      \<and> redis (snd (generateAnswer CONFIG env_search_down st0 ''q'' ''s1'')) = redis st0"
    using generateAnswer_failure_no_mutation
      [of CONFIG env_search_down st0 "''q''" "Error ''Bad Gateway''" "''s1''"]
      search_down_run
    by blast
  have b: "fst (generateAnswer CONFIG env_store_down st0 ''q'' ''s1'')
        = Inl (Error ''Connection is closed'')
      \<and> redis (snd (generateAnswer CONFIG env_store_down st0 ''q'' ''s1'')) = redis st0"
    using generateAnswer_failure_no_mutation
      [of CONFIG env_store_down st0 "''q''" "Error ''Connection is closed''" "''s1''"]
      store_down_run
    by blast
  have c: "fst (generateAnswer CONFIG env0 st_corrupt ''q'' ''s1'')
        = Inl (Error ''Unexpected token'')
      \<and> redis (snd (generateAnswer CONFIG env0 st_corrupt ''q'' ''s1'')) = redis st_corrupt"
    using generateAnswer_failure_no_mutation
      [of CONFIG env0 st_corrupt "''q''" "Error ''Unexpected token''" "''s1''"]
      corrupt_run
    by blast
  have d: "fst (generateAnswer CONFIG env_model_down st0 ''q'' ''s1'')
        = Inl (Error ''quota exceeded'')
      \<and> redis (snd (generateAnswer CONFIG env_model_down st0 ''q'' ''s1'')) = redis st0"
    using generateAnswer_failure_no_mutation
      [of CONFIG env_model_down st0 "''q''" "Error ''quota exceeded''" "''s1''"]
      model_down_run
    by blast
  from a b c d show ?thesis by blast
qed

text \<open>
  C1 as claimed fails: the model has answered \<open>ok\<close>, the write of the history fails, and
  \<open>generateAnswer\<close> returns the store's error instead of the answer.
\<close>

theorem generateAnswer_write_fails_counterexample:
  "fst (produce_answer CONFIG env_write_fails st0 ''q'' ''s1'') = Inr ([], [], ''ok'')
   \<and> fst (generateAnswer CONFIG env_write_fails st0 ''q'' ''s1'')
       = Inl (Error ''Connection is closed'')"
  by (simp add: run_defs env_write_fails_def env0_def st0_def)

text \<open>
  C1, amended: if the write of the updated history fails after the language model has
  answered, \<open>generateAnswer\<close> fails with the store's error; the answer and the sources are not
  returned, and the stored history is as it was before the call. (The write is the third
  call to a collaborator after the answer: two readings of the clock come first.)
\<close>

theorem generateAnswer_write_failure_propagates:
  assumes "produce_answer cfg env st query sessionId = (Inr (arts, history, ans), st3)"
      and "redis_fault env (length (trace st3) + 2) = Some e"
  shows "fst (generateAnswer cfg env st query sessionId) = Inl e
       \<and> redis (snd (generateAnswer cfg env st query sessionId)) = redis st"
  using assms produce_answer_frame [OF assms(1)]
  by (simp add: generateAnswer_def Date_now_def redis_set_def Let_def split: prod.splits)

lemma write_fails_run:
  "produce_answer CONFIG env_write_fails st0 ''q'' ''s1''
     = (Inr ([], [], ''ok''), snd (produce_answer CONFIG env_write_fails st0 ''q'' ''s1''))
   \<and> redis_fault env_write_fails
        (length (trace (snd (produce_answer CONFIG env_write_fails st0 ''q'' ''s1''))) + 2)
     = Some (Error ''Connection is closed'')"
  by (simp add: run_defs env_write_fails_def env0_def st0_def)

theorem generateAnswer_write_failure_propagates_witness:
  "fst (produce_answer CONFIG env_write_fails st0 ''q'' ''s1'') = Inr ([], [], ''ok'')
   \<and> fst (generateAnswer CONFIG env_write_fails st0 ''q'' ''s1'')
       = Inl (Error ''Connection is closed'')
   \<and> redis (snd (generateAnswer CONFIG env_write_fails st0 ''q'' ''s1'')) = redis st0"
proof -
  from write_fails_run
  have p: "produce_answer CONFIG env_write_fails st0 ''q'' ''s1''
       = (Inr ([], [], ''ok''), snd (produce_answer CONFIG env_write_fails st0 ''q'' ''s1''))"
    and f: "redis_fault env_write_fails
        (length (trace (snd (produce_answer CONFIG env_write_fails st0 ''q'' ''s1''))) + 2)
       = Some (Error ''Connection is closed'')"
    by blast+
  from p have "fst (produce_answer CONFIG env_write_fails st0 ''q'' ''s1'') = Inr ([], [], ''ok'')"
    by (metis fst_conv)
  with generateAnswer_write_failure_propagates [OF p f] show ?thesis by blast
qed

lemma generateAnswer_success:
  assumes ok: "generateAnswer cfg env st query sessionId = (Inr res, st')"
  shows "\<exists>arts h st1 st3 t1 t2.
      retrieveRelevantArticles cfg env st query None = (Inr arts, st1)
    \<and> produce_answer cfg env st query sessionId = (Inr (arts, h, answer res), st3)
    \<and> parse_history env (map_option fst (redis st (session_key sessionId))) = Inr h
    \<and> answer_sources res = map (caller_source env) arts
    \<and> redis st' = (redis st)(session_key sessionId \<mapsto>
         (JSON_stringify env (h @ [user_turn query t1, assistant_turn (answer res) t2 arts]), SESSION_TTL cfg))"
  using ok
  apply (simp add: generateAnswer_def split: prod.splits sum.splits)
  apply (clarsimp simp: Date_now_def redis_set_def Let_def split: option.splits)
  apply (frule produce_answer_frame)
  apply (clarsimp simp: produce_answer_def Let_def split: prod.splits sum.splits)
  apply (frule retrieveRelevantArticles_frame)
  apply (auto simp: redis_get_def gemini_generate_def Let_def split: option.splits)
  done

lemma produce_answer_model_reply:
  assumes "produce_answer cfg env st query sessionId = (Inr (arts, h, ans), st3)"
  shows "\<exists>n. gemini_reply env n
               (build_prompt (render_context env arts) (conversationContext h) query) = Inr ans"
  using assms
  by (auto simp: produce_answer_def gemini_generate_def Let_def split: prod.splits sum.splits)

lemma retrieve_length_bound:
  assumes "retrieveRelevantArticles cfg env st query None = (Inr arts, st1)"
      and "\<forall>n coll v limit hits. search_reply env n coll v limit = Inr hits \<longrightarrow> length hits \<le> limit"
  shows "length arts \<le> TOP_K_RESULTS cfg"
  using assms
  by (auto simp: retrieveRelevantArticles_def qdrant_search_def Let_def split: prod.splits sum.splits)

lemma getChatHistory_reads_back:
  assumes "redis st (session_key sessionId) = Some (JSON_stringify env h, ex)"
      and "json_round_trip env h" and "redis_fault env (length (trace st)) = None"
  shows "fst (getChatHistory env st sessionId) = Inr h"
  using assms
  by (simp add: getChatHistory_def redis_get_def Let_def try_catch_def parse_history_def json_round_trip_def)

text \<open>
  C9: a successful \<open>generateAnswer\<close> returns one source per retrieval result (at most the
  configured \<open>topK\<close> when the index honours its limit), and its answer is the reply of the
  language model to the prompt. It overwrites the session's entry with the serialisation of
  the history it read followed by exactly two turns, in this order: a turn with role \<open>user\<close>
  whose content is the query as given, and a turn with role \<open>assistant\<close> whose content is the
  answer as returned and whose sources are the title, link, source and score of each
  retrieval result, in the order retrieved. With no entry before the call the history read is
  empty, so a following \<open>getChatHistory\<close> (the store answering, the serialised history
  parsing back) returns exactly these two turns.
\<close>

theorem generateAnswer_appends_two_turns:
  assumes "generateAnswer cfg env st query sessionId = (Inr res, st')"
  shows "\<exists>arts h t1 t2 st1.
      retrieveRelevantArticles cfg env st query None = (Inr arts, st1)
    \<and> length (answer_sources res) = length arts
    \<and> ((\<forall>n coll v limit hits. search_reply env n coll v limit = Inr hits \<longrightarrow> length hits \<le> limit)
         \<longrightarrow> length arts \<le> TOP_K_RESULTS cfg)
    \<and> (\<exists>n. gemini_reply env n
               (build_prompt (render_context env arts) (conversationContext h) query)
             = Inr (answer res))
    \<and> parse_history env (map_option fst (redis st (session_key sessionId))) = Inr h
    \<and> (redis st (session_key sessionId) = None \<longrightarrow> h = [])
    \<and> redis st' = (redis st)(session_key sessionId \<mapsto>
         (JSON_stringify env
           (h @ [\<lparr>role = ''user'', content = query, timestamp = t1, sources = None\<rparr>,
            \<lparr>role = ''assistant'', content = answer res, timestamp = t2,
              sources = Some (map (\<lambda>a. \<lparr>ts_title = title a, ts_link = link a,
                                         ts_source = source a, ts_score = score a\<rparr>) arts)\<rparr>]),
          SESSION_TTL cfg))
    \<and> (json_round_trip env
           (h @ [\<lparr>role = ''user'', content = query, timestamp = t1, sources = None\<rparr>,
            \<lparr>role = ''assistant'', content = answer res, timestamp = t2,
              sources = Some (map (\<lambda>a. \<lparr>ts_title = title a, ts_link = link a,
                                         ts_source = source a, ts_score = score a\<rparr>) arts)\<rparr>])
         \<and> redis_fault env (length (trace st')) = None
       \<longrightarrow> fst (getChatHistory env st' sessionId)
             = Inr (h @ [\<lparr>role = ''user'', content = query, timestamp = t1, sources = None\<rparr>,
            \<lparr>role = ''assistant'', content = answer res, timestamp = t2,
              sources = Some (map (\<lambda>a. \<lparr>ts_title = title a, ts_link = link a,
                                         ts_source = source a, ts_score = score a\<rparr>) arts)\<rparr>]))"
proof -
  from generateAnswer_success [OF assms]
  obtain arts h st1 st3 t1 t2 where
    r: "retrieveRelevantArticles cfg env st query None = (Inr arts, st1)"
    and p: "produce_answer cfg env st query sessionId = (Inr (arts, h, answer res), st3)"
    and h: "parse_history env (map_option fst (redis st (session_key sessionId))) = Inr h"
    and s: "answer_sources res = map (caller_source env) arts"
    and w0: "redis st' = (redis st)(session_key sessionId \<mapsto>
         (JSON_stringify env (h @ [user_turn query t1, assistant_turn (answer res) t2 arts]),
          SESSION_TTL cfg))"
    by blast
  let ?H = "h @ [\<lparr>role = ''user'', content = query, timestamp = t1, sources = None\<rparr>,
            \<lparr>role = ''assistant'', content = answer res, timestamp = t2,
              sources = Some (map (\<lambda>a. \<lparr>ts_title = title a, ts_link = link a,
                                         ts_source = source a, ts_score = score a\<rparr>) arts)\<rparr>]"
  have turns: "h @ [user_turn query t1, assistant_turn (answer res) t2 arts] = ?H"
    by (simp add: user_turn_def assistant_turn_def history_source_def [abs_def])
  have w: "redis st' = (redis st)(session_key sessionId \<mapsto> (JSON_stringify env ?H, SESSION_TTL cfg))"
    using w0 by (simp only: turns)
  have len: "length (answer_sources res) = length arts" using s by simp
  have bound: "(\<forall>n coll v limit hits. search_reply env n coll v limit = Inr hits \<longrightarrow> length hits \<le> limit)
         \<longrightarrow> length arts \<le> TOP_K_RESULTS cfg"
    using retrieve_length_bound [OF r] by blast
  have model: "\<exists>n. gemini_reply env n
               (build_prompt (render_context env arts) (conversationContext h) query)
             = Inr (answer res)"
    by (rule produce_answer_model_reply [OF p])
  have fresh: "redis st (session_key sessionId) = None \<longrightarrow> h = []"
    using h by (auto simp: parse_history_def)
  have reread: "json_round_trip env ?H \<and> redis_fault env (length (trace st')) = None
       \<longrightarrow> fst (getChatHistory env st' sessionId) = Inr ?H"
    using getChatHistory_reads_back [of st' sessionId env ?H "SESSION_TTL cfg"] w by simp
  show ?thesis
    apply (rule exI [of _ arts], rule exI [of _ h], rule exI [of _ t1], rule exI [of _ t2],
        rule exI [of _ st1])
    using r len bound model h fresh w reread apply (intro conjI)
           apply assumption+
    done
qed

lemma found_run:
  "generateAnswer CONFIG env_found st0 ''What happened in tech?'' ''s1''
     = (Inr \<lparr>answer = ''ok'',
             answer_sources = [caller_source env_found (to_retrieved hit_a),
                               caller_source env_found (to_retrieved hit_b)]\<rparr>,
        snd (generateAnswer CONFIG env_found st0 ''What happened in tech?'' ''s1''))"
  by (simp add: run_defs env_found_def env0_def st0_def CONFIG_def)

lemma found_store:
  "redis (snd (generateAnswer CONFIG env_found st0 ''What happened in tech?'' ''s1'')) ''session:s1''
     = Some (''[user,assistant]'', 3600)"
  by (simp add: run_defs env_found_def env0_def st0_def CONFIG_def history_s1_def eval_nat_numeral
      user_turn_def assistant_turn_def history_source_def to_retrieved_def hit_a_def hit_b_def
      article_a_def article_b_def)


theorem generateAnswer_appends_two_turns_witness:
  "fst (generateAnswer CONFIG env_found st0 ''What happened in tech?'' ''s1'')
     = Inr \<lparr>answer = ''ok'',
             answer_sources = [caller_source env_found (to_retrieved hit_a),
                               caller_source env_found (to_retrieved hit_b)]\<rparr>
   \<and> fst (getChatHistory env_found
            (snd (generateAnswer CONFIG env_found st0 ''What happened in tech?'' ''s1'')) ''s1'')
       = Inr [\<lparr>role = ''user'', content = ''What happened in tech?'', timestamp = 4,
               sources = None\<rparr>,
              \<lparr>role = ''assistant'', content = ''ok'', timestamp = 5,
               sources = Some
                 [\<lparr>ts_title = ''Chip maker unveils new processor'',
                   ts_link = ''https://example.org/a'', ts_source = ''RSS Feed'',
                   ts_score = 9 / 10\<rparr>,
                  \<lparr>ts_title = ''Markets close higher'', ts_link = ''https://example.org/b'',
                   ts_source = ''RSS Feed'', ts_score = 1 / 2\<rparr>]\<rparr>]"
proof -
  let ?st' = "snd (generateAnswer CONFIG env_found st0 ''What happened in tech?'' ''s1'')"
  let ?res = "\<lparr>answer = ''ok'',
             answer_sources = [caller_source env_found (to_retrieved hit_a),
                               caller_source env_found (to_retrieved hit_b)]\<rparr>"
  from generateAnswer_appends_two_turns [OF found_run]
  obtain arts :: "retrieved list" and h t1 t2 where
    w: "redis ?st' = (redis st0)(session_key ''s1'' \<mapsto>
         (JSON_stringify env_found
            (h @ [\<lparr>role = ''user'', content = ''What happened in tech?'', timestamp = t1, sources = None\<rparr>,
            \<lparr>role = ''assistant'', content = answer ?res, timestamp = t2,
              sources = Some (map (\<lambda>a. \<lparr>ts_title = title a, ts_link = link a,
                                         ts_source = source a, ts_score = score a\<rparr>) arts)\<rparr>]),
          SESSION_TTL CONFIG))"
    and reread: "json_round_trip env_found
            (h @ [\<lparr>role = ''user'', content = ''What happened in tech?'', timestamp = t1, sources = None\<rparr>,
            \<lparr>role = ''assistant'', content = answer ?res, timestamp = t2,
              sources = Some (map (\<lambda>a. \<lparr>ts_title = title a, ts_link = link a,
                                         ts_source = source a, ts_score = score a\<rparr>) arts)\<rparr>])
         \<and> redis_fault env_found (length (trace ?st')) = None
       \<longrightarrow> fst (getChatHistory env_found ?st' ''s1'')
             = Inr (h @ [\<lparr>role = ''user'', content = ''What happened in tech?'', timestamp = t1, sources = None\<rparr>,
            \<lparr>role = ''assistant'', content = answer ?res, timestamp = t2,
              sources = Some (map (\<lambda>a. \<lparr>ts_title = title a, ts_link = link a,
                                         ts_source = source a, ts_score = score a\<rparr>) arts)\<rparr>])"
    apply (elim exE conjE)
    subgoal for arts h t1 t2 st1 n by (rule that [of h t1 t2 arts])
    done
  let ?H = "h @ [\<lparr>role = ''user'', content = ''What happened in tech?'', timestamp = t1, sources = None\<rparr>,
            \<lparr>role = ''assistant'', content = answer ?res, timestamp = t2,
              sources = Some (map (\<lambda>a. \<lparr>ts_title = title a, ts_link = link a,
                                         ts_source = source a, ts_score = score a\<rparr>) arts)\<rparr>]"
  from w found_store
  have "JSON_stringify env_found ?H = ''[user,assistant]''"
    by (simp add: session_key_def)
  then have H: "?H = history_s1"
    by (simp add: env_found_def split: if_splits)
  have rt: "json_round_trip env_found history_s1"
    by (simp add: json_round_trip_def env_found_def history_s1_def)
  have nf: "redis_fault env_found (length (trace ?st')) = None"
    by (simp add: env_found_def env0_def)
  from reread rt nf
  have "fst (getChatHistory env_found ?st' ''s1'') = Inr history_s1"
    by (simp only: H)
  moreover have "fst (generateAnswer CONFIG env_found st0 ''What happened in tech?'' ''s1'')
      = Inr ?res"
    using found_run by (metis fst_conv)
  ultimately show ?thesis by (simp add: history_s1_def)
qed


section \<open>Embedding service and retrieval\<close>

lemma createSimpleEmbedding_length: "length (createSimpleEmbedding text) = 768"
  by (simp add: createSimpleEmbedding_def Let_def)

lemma getJinaBatchEmbeddings_result:
  "fst (getJinaBatchEmbeddings env st texts) =
     (case jina_request env st texts of
        Inl e \<Rightarrow> Inr (map createSimpleEmbedding texts)
      | Inr vs \<Rightarrow> Inr vs)"
  by (simp add: getJinaBatchEmbeddings_def Let_def try_catch_def split: sum.splits)

lemma truncate_to_retrieved: "article.truncate (to_retrieved h) = hit_payload h"
  by (simp add: to_retrieved_def article.truncate_def)

lemma contract_all_points:
  assumes "search_contract coll k hits" and "finite (dom coll)" and "card (dom coll) < k"
  shows "hit_payload ` set hits = payload ` ran coll"
proof -
  from assms(1,3) have len: "length hits = card (dom coll)"
    and dist: "distinct (map hit_id hits)"
    and pts: "\<forall>h \<in> set hits. map_option payload (coll (hit_id h)) = Some (hit_payload h)"
    by (simp_all add: search_contract_def list_all_iff)
  have sub: "hit_id ` set hits \<subseteq> dom coll"
    using pts by (auto simp: dom_def)
  have "card (hit_id ` set hits) = card (dom coll)"
    using dist len distinct_card [of "map hit_id hits"] by simp
  with sub assms(2) have ids: "hit_id ` set hits = dom coll"
    by (simp add: card_subset_eq)
  show ?thesis
  proof (intro equalityI subsetI)
    fix a assume "a \<in> hit_payload ` set hits"
    then obtain h where h: "h \<in> set hits" and a: "a = hit_payload h" by (rule imageE)
    from pts h have "map_option payload (coll (hit_id h)) = Some (hit_payload h)" by (rule bspec)
    then obtain p where c: "coll (hit_id h) = Some p" and pl: "payload p = hit_payload h"
      by (cases "coll (hit_id h)") simp_all
    from c have "p \<in> ran coll" by (rule ranI)
    moreover from a pl have "a = payload p" by simp
    ultimately show "a \<in> payload ` ran coll" by (rule rev_image_eqI)
  next
    fix a assume "a \<in> payload ` ran coll"
    then obtain p where pr: "p \<in> ran coll" and a: "a = payload p" by (rule imageE)
    from pr obtain i where p: "coll i = Some p" by (auto simp: ran_def)
    then have "i \<in> dom coll" by (rule domI)
    with ids have "i \<in> hit_id ` set hits" by simp
    then obtain h where h: "h \<in> set hits" and i: "i = hit_id h" by (rule imageE)
    from pts h have "map_option payload (coll (hit_id h)) = Some (hit_payload h)" by (rule bspec)
    with p i have "payload p = hit_payload h" by simp
    with a have "a = hit_payload h" by simp
    with h show "a \<in> hit_payload ` set hits" by (rule rev_image_eqI)
  qed
qed

text \<open>
  C6 as claimed fails: the collection holds two points, the search answers a limit of 5 with
  no match, which is within its limit and in order, and \<open>retrieveRelevantArticles\<close> returns
  no result, not the two points.
\<close>

theorem retrieveRelevantArticles_fewer_than_k_counterexample:
  "search_reply env0 1 (collection st_indexed) (Some [Num 1]) 5 = Inr []
   \<and> limit_order_contract 5 []
   \<and> card (dom (collection st_indexed)) = 2
   \<and> fst (retrieveRelevantArticles CONFIG env0 st_indexed ''tech'' (Some 5)) = Inr []"
  by (simp add: run_defs env0_def st_indexed_def st0_def limit_order_contract_def)

text \<open>
  C6 amended: when the search of the index succeeds within its limit and order (at most \<open>k\<close>
  matches, best score first), \<open>retrieveRelevantArticles query k\<close> returns the matches of the
  search one for one, in the order and with the scores and payloads the index gave them: at
  most \<open>k\<close> results, in descending order of score. The code adds no result of its own, so it
  returns every point of a collection that holds fewer than \<open>k\<close> only when the search is
  complete as well, which its limit and order do not say. Without a \<open>topK\<close> argument the
  limit is the configured \<open>TOP_K_RESULTS\<close>, which is 20.
\<close>

theorem retrieveRelevantArticles_top_k:
  assumes "getJinaEmbedding env st query = (Inr v, st1)"
      and "search_reply env (length (trace st1)) (collection st1) v k = Inr hits"
      and "limit_order_contract k hits"
  shows "\<exists>rs. fst (retrieveRelevantArticles cfg env st query (Some k)) = Inr rs
       \<and> length rs \<le> k
       \<and> sorted_wrt (\<lambda>a b. score b \<le> score a) rs
       \<and> map score rs = map hit_score hits
       \<and> map article.truncate rs = map hit_payload hits
       \<and> (search_contract (collection st) k hits
            \<longrightarrow> (card (dom (collection st)) < k \<longrightarrow> length rs = card (dom (collection st)))
              \<and> (finite (dom (collection st)) \<and> card (dom (collection st)) < k
                   \<longrightarrow> article.truncate ` set rs = payload ` ran (collection st)))
       \<and> retrieveRelevantArticles cfg env st query None
           = retrieveRelevantArticles cfg env st query (Some (TOP_K_RESULTS cfg))
       \<and> TOP_K_RESULTS CONFIG = 20"
proof -
  have r: "fst (retrieveRelevantArticles cfg env st query (Some k)) = Inr (map to_retrieved hits)"
    using assms(1,2) by (simp add: retrieveRelevantArticles_def qdrant_search_def Let_def)
  have l: "length (map to_retrieved hits) \<le> k"
    using assms(3) by (simp add: limit_order_contract_def)
  have s: "sorted_wrt (\<lambda>a b. score b \<le> score a) (map to_retrieved hits)"
    using assms(3) by (simp add: limit_order_contract_def sorted_wrt_map to_retrieved_def)
  have m: "map score (map to_retrieved hits) = map hit_score hits"
    by (simp add: to_retrieved_def)
  have p: "map article.truncate (map to_retrieved hits) = map hit_payload hits"
    by (simp add: truncate_to_retrieved)
  have img: "article.truncate ` set (map to_retrieved hits) = hit_payload ` set hits"
    by (simp add: image_image truncate_to_retrieved)
  have a: "search_contract (collection st) k hits
            \<longrightarrow> (card (dom (collection st)) < k
                   \<longrightarrow> length (map to_retrieved hits) = card (dom (collection st)))
              \<and> (finite (dom (collection st)) \<and> card (dom (collection st)) < k
                   \<longrightarrow> article.truncate ` set (map to_retrieved hits)
                       = payload ` ran (collection st))"
  proof (intro impI conjI)
    assume "search_contract (collection st) k hits" and "card (dom (collection st)) < k"
    then show "length (map to_retrieved hits) = card (dom (collection st))"
      by (simp add: search_contract_def)
  next
    assume c: "search_contract (collection st) k hits"
      and f: "finite (dom (collection st)) \<and> card (dom (collection st)) < k"
    from f have "finite (dom (collection st))" and "card (dom (collection st)) < k"
      by simp_all
    with c have "hit_payload ` set hits = payload ` ran (collection st)"
      by (rule contract_all_points)
    with img show "article.truncate ` set (map to_retrieved hits) = payload ` ran (collection st)"
      by simp
  qed
  have d: "retrieveRelevantArticles cfg env st query None
           = retrieveRelevantArticles cfg env st query (Some (TOP_K_RESULTS cfg))"
    by (simp add: retrieveRelevantArticles_def)
  have t: "TOP_K_RESULTS CONFIG = 20" by (simp add: CONFIG_def)
  from r l s m p a d t show ?thesis
    by (intro exI [of _ "map to_retrieved hits"] conjI) assumption+
qed

text \<open>
  C10: \<open>getJinaBatchEmbeddings\<close> never raises; without a credential, or when the remote
  request fails, it returns the fallback vector of each text, one per text. So
  \<open>getJinaEmbedding\<close> never raises either, and an error of \<open>retrieveRelevantArticles\<close> is
  the error of its search of the index.
\<close>

theorem embedding_never_fails:
  "(\<exists>vs. fst (getJinaBatchEmbeddings env st texts) = Inr vs
        \<and> (JINA_API_KEY env = None \<or> JINA_API_KEY env = Some []
             \<or> isl (jina_post env (length (trace st)) (map (take 8000) texts))
           \<longrightarrow> vs = map createSimpleEmbedding texts \<and> length vs = length texts))
   \<and> (\<exists>v. fst (getJinaEmbedding env st text) = Inr v)
   \<and> (fst (retrieveRelevantArticles cfg env st query k) = Inl e
       \<longrightarrow> (\<exists>v st1. getJinaEmbedding env st query = (Inr v, st1)
              \<and> fst (qdrant_search env st1 v (case k of None \<Rightarrow> TOP_K_RESULTS cfg | Some n \<Rightarrow> n))
                  = Inl e))"
proof (intro conjI)
  show "\<exists>vs. fst (getJinaBatchEmbeddings env st texts) = Inr vs
        \<and> (JINA_API_KEY env = None \<or> JINA_API_KEY env = Some []
             \<or> isl (jina_post env (length (trace st)) (map (take 8000) texts))
           \<longrightarrow> vs = map createSimpleEmbedding texts \<and> length vs = length texts)"
    by (auto simp: getJinaBatchEmbeddings_result jina_request_def isl_def split: sum.splits)
  show "\<exists>v. fst (getJinaEmbedding env st text) = Inr v"
    by (auto simp: getJinaEmbedding_def getJinaBatchEmbeddings_def Let_def try_catch_def split: prod.splits sum.splits)
  show "fst (retrieveRelevantArticles cfg env st query k) = Inl e
       \<longrightarrow> (\<exists>v st1. getJinaEmbedding env st query = (Inr v, st1)
              \<and> fst (qdrant_search env st1 v (case k of None \<Rightarrow> TOP_K_RESULTS cfg | Some n \<Rightarrow> n))
                  = Inl e)"
    by (auto simp: retrieveRelevantArticles_def getJinaEmbedding_def getJinaBatchEmbeddings_def Let_def try_catch_def split: prod.splits sum.splits)
qed

text \<open>
  C8: the fallback embedding is a function of the text alone: the same text gives the same
  vector, of 768 components, equal component by component; and two calls of the embedding
  service that fall back, in any two environments and states, return the same vectors for
  the same text.
\<close>

theorem createSimpleEmbedding_deterministic:
  assumes "text1 = text2"
  shows "createSimpleEmbedding text1 = createSimpleEmbedding text2
     \<and> length (createSimpleEmbedding text1) = 768
     \<and> length (createSimpleEmbedding text2) = 768
     \<and> (\<forall>i < 768. createSimpleEmbedding text1 ! i = createSimpleEmbedding text2 ! i)
     \<and> (isl (jina_request env1 st1 [text1]) \<and> isl (jina_request env2 st2 [text2])
         \<longrightarrow> fst (getJinaBatchEmbeddings env1 st1 [text1])
             = fst (getJinaBatchEmbeddings env2 st2 [text2]))"
  using assms
  by (auto simp: createSimpleEmbedding_length getJinaBatchEmbeddings_result isl_def)

lemma indexed_search:
  "getJinaEmbedding env_found st_indexed ''tech'' = (Inr (Some [Num 1]), snd (getJinaEmbedding env_found st_indexed ''tech''))
  \<and> search_reply env_found (length (trace (snd (getJinaEmbedding env_found st_indexed ''tech''))))
        (collection (snd (getJinaEmbedding env_found st_indexed ''tech''))) (Some [Num 1]) 5 = Inr [hit_a, hit_b]
  \<and> limit_order_contract 5 [hit_a, hit_b]
  \<and> search_contract (collection st_indexed) 5 [hit_a, hit_b]"
  by (simp add: run_defs env_found_def env0_def st_indexed_def st0_def search_contract_def
      limit_order_contract_def hit_a_def hit_b_def)

lemma indexed_search_one:
  "getJinaEmbedding env_found st_indexed ''tech'' = (Inr (Some [Num 1]), snd (getJinaEmbedding env_found st_indexed ''tech''))
  \<and> search_reply env_found (length (trace (snd (getJinaEmbedding env_found st_indexed ''tech''))))
        (collection (snd (getJinaEmbedding env_found st_indexed ''tech''))) (Some [Num 1]) 1 = Inr [hit_a]
  \<and> limit_order_contract 1 [hit_a]"
  by (simp add: run_defs env_found_def env0_def st_indexed_def st0_def limit_order_contract_def
      hit_a_def hit_b_def)

theorem retrieveRelevantArticles_top_k_witness:
  "(\<exists>rs. fst (retrieveRelevantArticles CONFIG env_found st_indexed ''tech'' (Some 5)) = Inr rs
        \<and> length rs = 2 \<and> map score rs = [9 / 10, 1 / 2]
        \<and> map article.truncate rs = [article_a, article_b]
        \<and> article.truncate ` set rs = payload ` ran (collection st_indexed))
   \<and> (\<exists>rs. fst (retrieveRelevantArticles CONFIG env_found st_indexed ''tech'' (Some 1)) = Inr rs
        \<and> length rs \<le> 1 \<and> map score rs = [9 / 10] \<and> map article.truncate rs = [article_a])"
proof -
  have fin: "finite (dom (collection st_indexed))"
    by (simp add: st_indexed_def st0_def)
  have card2: "card (dom (collection st_indexed)) = 2"
    by (simp add: st_indexed_def st0_def)
  from indexed_search
  have a: "getJinaEmbedding env_found st_indexed ''tech''
        = (Inr (Some [Num 1]), snd (getJinaEmbedding env_found st_indexed ''tech''))"
    and b: "search_reply env_found (length (trace (snd (getJinaEmbedding env_found st_indexed ''tech''))))
        (collection (snd (getJinaEmbedding env_found st_indexed ''tech''))) (Some [Num 1]) 5
        = Inr [hit_a, hit_b]"
    and c: "limit_order_contract 5 [hit_a, hit_b]"
    and sc: "search_contract (collection st_indexed) 5 [hit_a, hit_b]"
    by blast+
  from indexed_search_one
  have b1: "search_reply env_found (length (trace (snd (getJinaEmbedding env_found st_indexed ''tech''))))
        (collection (snd (getJinaEmbedding env_found st_indexed ''tech''))) (Some [Num 1]) 1
        = Inr [hit_a]"
    and c1: "limit_order_contract 1 [hit_a]"
    by blast+
  from retrieveRelevantArticles_top_k [OF a b c, of CONFIG] sc card2 fin
  have five: "\<exists>rs. fst (retrieveRelevantArticles CONFIG env_found st_indexed ''tech'' (Some 5)) = Inr rs
        \<and> length rs = 2 \<and> map score rs = [9 / 10, 1 / 2]
        \<and> map article.truncate rs = [article_a, article_b]
        \<and> article.truncate ` set rs = payload ` ran (collection st_indexed)"
    by (auto simp: hit_a_def hit_b_def)
  from retrieveRelevantArticles_top_k [OF a b1 c1, of CONFIG]
  have one: "\<exists>rs. fst (retrieveRelevantArticles CONFIG env_found st_indexed ''tech'' (Some 1)) = Inr rs
        \<and> length rs \<le> 1 \<and> map score rs = [9 / 10] \<and> map article.truncate rs = [article_a]"
    by (auto simp: hit_a_def)
  from five one show ?thesis by blast
qed

theorem createSimpleEmbedding_deterministic_witness:
  "createSimpleEmbedding ''Markets close higher'' = createSimpleEmbedding ''Markets close higher''
   \<and> length (createSimpleEmbedding ''Markets close higher'') = 768
   \<and> fst (getJinaBatchEmbeddings env_no_key st0 [''Markets close higher''])
       = fst (getJinaBatchEmbeddings env_jina_down st_indexed [''Markets close higher''])"
proof -
  have a: "isl (jina_request env_no_key st0 [''Markets close higher''])"
    by (simp add: jina_request_def env_no_key_def env0_def)
  have b: "isl (jina_request env_jina_down st_indexed [''Markets close higher''])"
    by (simp add: jina_request_def env_jina_down_def env0_def)
  from createSimpleEmbedding_deterministic [OF refl, of "''Markets close higher''" env_no_key st0 env_jina_down st_indexed] a b
  show ?thesis by blast
qed

theorem embedding_never_fails_witness:
  "fst (getJinaBatchEmbeddings env_no_key st0 [''tech'', ''news''])
     = Inr [createSimpleEmbedding ''tech'', createSimpleEmbedding ''news'']
   \<and> fst (getJinaBatchEmbeddings env_jina_down st0 [''tech'', ''news''])
     = Inr [createSimpleEmbedding ''tech'', createSimpleEmbedding ''news'']
   \<and> fst (retrieveRelevantArticles CONFIG env_search_down st0 ''q'' None)
     = Inl (Error ''Bad Gateway'')
   \<and> (\<exists>v st1. getJinaEmbedding env_search_down st0 ''q'' = (Inr v, st1)
         \<and> fst (qdrant_search env_search_down st1 v 20) = Inl (Error ''Bad Gateway''))"
proof -
  have k: "JINA_API_KEY env_no_key = None"
    by (simp add: env_no_key_def)
  have d: "isl (jina_post env_jina_down (length (trace st0)) (map (take 8000) [''tech'', ''news'']))"
    by (simp add: env_jina_down_def)
  from embedding_never_fails [where env = env_no_key and st = st0 and texts = "[''tech'', ''news'']"] k
  have a: "fst (getJinaBatchEmbeddings env_no_key st0 [''tech'', ''news''])
     = Inr [createSimpleEmbedding ''tech'', createSimpleEmbedding ''news'']"
    by auto
  from embedding_never_fails [where env = env_jina_down and st = st0 and texts = "[''tech'', ''news'']"] d
  have b: "fst (getJinaBatchEmbeddings env_jina_down st0 [''tech'', ''news''])
     = Inr [createSimpleEmbedding ''tech'', createSimpleEmbedding ''news'']"
    by auto
  from embedding_never_fails [where env = env_search_down and st = st0 and cfg = CONFIG and query = "''q''"
      and k = None and e = "Error ''Bad Gateway''"] search_down_run
  have c: "\<exists>v st1. getJinaEmbedding env_search_down st0 ''q'' = (Inr v, st1)
         \<and> fst (qdrant_search env_search_down st1 v 20) = Inl (Error ''Bad Gateway'')"
    by (simp add: CONFIG_def)
  from a b c search_down_run show ?thesis by blast
qed

section \<open>The fallback embedding and the reference bag of words\<close>

lemma first_seen_snoc:
  "first_seen (ts @ [w]) = (if w \<in> set ts then first_seen ts else first_seen ts @ [w])"
  by (simp add: first_seen_def)

lemma first_seen_set [simp]: "set (first_seen ts) = set ts"
  by (simp add: first_seen_def)

lemma first_seen_distinct [simp]: "distinct (first_seen ts)"
  by (simp add: first_seen_def)

lemma count_list_snoc: "count_list (ts @ [w]) u = count_list ts u + (if u = w then 1 else 0)"
  by (induction ts) auto

lemma count_list_zero: "count_list xs x = 0 \<longleftrightarrow> x \<notin> set xs"
  by (induction xs) auto

lemma update_absent:
  "k \<notin> fst ` set al \<Longrightarrow> AList.update k v al = al @ [(k, v)]"
  by (induction al) auto

lemma update_present:
  "k \<in> set xs \<Longrightarrow> distinct xs \<Longrightarrow>
   AList.update k v (map (\<lambda>u. (u, f u)) xs) = map (\<lambda>u. (u, if u = k then v else f u)) xs"
  by (induction xs) auto

lemma map_of_freq_obj:
  "map_of (freq_obj ts) w = (if w \<in> set ts then Some (Num (real (count_list ts w))) else None)"
  by (simp add: freq_obj_def map_of_map_restrict restrict_map_def)

lemma count_word_step:
  assumes "Object_prototype w = None" and "2 < length w"
  shows "count_word (freq_obj ts) w = freq_obj (ts @ [w])"
proof -
  have np: "w \<noteq> ''__proto__''" using assms(1) by (auto simp: Object_prototype_def)
  show ?thesis
  proof (cases "w \<in> set ts")
    case True
    then have pos: "0 < count_list ts w" using count_list_zero [of ts w] by simp
    have "count_word (freq_obj ts) w
        = AList.update w (Num (real (count_list ts w) + 1)) (freq_obj ts)"
      using assms True np pos
      by (simp add: count_word_def get_prop_def map_of_freq_obj or_zero_def add_one_def set_prop_def)
    also have "\<dots> = freq_obj (ts @ [w])"
      using True by (simp add: freq_obj_def update_present first_seen_snoc count_list_snoc)
    finally show ?thesis .
  next
    case False
    then have z: "count_list ts w = 0" by (simp add: count_list_zero)
    have "count_word (freq_obj ts) w = AList.update w (Num 1) (freq_obj ts)"
      using assms False np
      by (simp add: count_word_def get_prop_def map_of_freq_obj or_zero_def add_one_def set_prop_def)
    also have "\<dots> = freq_obj ts @ [(w, Num 1)]"
      using False by (intro update_absent) (simp add: freq_obj_def image_image)
    also have "\<dots> = freq_obj (ts @ [w])"
      using False z by (auto simp: freq_obj_def first_seen_snoc count_list_snoc)
    finally show ?thesis .
  qed
qed


lemma fold_count_word:
  assumes "\<forall>w \<in> set ws. 2 < length w \<longrightarrow> Object_prototype w = None"
  shows "fold (\<lambda>w obj. count_word obj w) ws (freq_obj ts)
       = freq_obj (ts @ filter (\<lambda>w. 2 < length w) ws)"
  using assms
proof (induction ws arbitrary: ts)
  case Nil
  then show ?case by simp
next
  case (Cons w ws)
  show ?case
  proof (cases "2 < length w")
    case True
    with Cons.prems have "count_word (freq_obj ts) w = freq_obj (ts @ [w])"
      by (simp add: count_word_step)
    with Cons True show ?thesis by simp
  next
    case False
    then have "count_word (freq_obj ts) w = freq_obj ts" by (simp add: count_word_def)
    with Cons False show ?thesis by simp
  qed
qed

lemma freq_obj_Nil: "freq_obj [] = []"
  by (simp add: freq_obj_def first_seen_def)

lemma wordFreq_is_freq_obj:
  assumes "\<forall>w \<in> set ws. 2 < length w \<longrightarrow> Object_prototype w = None"
  shows "fold (\<lambda>w obj. count_word obj w) ws [] = freq_obj (filter (\<lambda>w. 2 < length w) ws)"
  using fold_count_word [OF assms, of "[]"] by (simp add: freq_obj_Nil)

lemma insert_cmp_insort:
  assumes "is_Num (snd x)" and "\<forall>p \<in> set ys. is_Num (snd p)"
  shows "insert_cmp (\<lambda>a b. js_minus (snd b) (snd a)) x ys = insort_key entry_key x ys"
  using assms
proof (induction ys)
  case Nil
  then show ?case by simp
next
  case (Cons y ys)
  then show ?case
    by (cases "snd x"; cases "snd y") (auto simp: js_minus_def entry_key_def is_Num_def)
qed

lemma engine_arrangement_permutes: "mset (engine_arrangement cmp xs) = mset xs"
proof -
  have "\<exists>f :: ('a \<Rightarrow> 'a \<Rightarrow> real option) \<Rightarrow> 'a list \<Rightarrow> 'a list.
          \<forall>cmp xs. mset (f cmp xs) = mset xs"
    by (rule exI [of _ "\<lambda>cmp xs. xs"]) simp
  then have "\<forall>cmp xs. mset ((SOME f :: ('a \<Rightarrow> 'a \<Rightarrow> real option) \<Rightarrow> 'a list \<Rightarrow> 'a list.
          \<forall>cmp xs. mset (f cmp xs) = mset xs) cmp xs) = mset xs"
    by (rule someI_ex)
  then show ?thesis by (simp add: engine_arrangement_def)
qed

lemma insertion_sort_key:
  assumes "\<forall>p \<in> set xs. is_Num (snd p)"
  shows "foldr (insert_cmp (\<lambda>a b. js_minus (snd b) (snd a))) xs [] = sort_key entry_key xs"
  using assms
proof (induction xs)
  case Nil
  then show ?case by simp
next
  case (Cons x xs)
  then have "foldr (insert_cmp (\<lambda>a b. js_minus (snd b) (snd a))) xs [] = sort_key entry_key xs"
    by simp
  with Cons.prems show ?case
    by (simp add: insert_cmp_insort)
qed

lemma js_sort_sort_key:
  assumes "\<forall>p \<in> set xs. is_Num (snd p)"
  shows "js_sort (\<lambda>a b. js_minus (snd b) (snd a)) xs = sort_key entry_key xs"
proof -
  have "js_minus (snd y) (snd x) \<noteq> None" if "x \<in> set xs" and "y \<in> set xs" for x y
    using assms that by (cases "snd x"; cases "snd y") (auto simp: js_minus_def is_Num_def)
  then have "list_all (\<lambda>x. list_all (\<lambda>y. js_minus (snd y) (snd x) \<noteq> None) xs) xs"
    by (simp add: list_all_iff)
  then show ?thesis
    using insertion_sort_key [OF assms] by (simp add: js_sort_def)
qed

lemma mset_Object_entries: "mset (Object_entries obj) = mset obj"
  by (simp add: Object_entries_def)

lemma map_key_sort_key: "map f (sort_key f xs) = sort (map f xs)"
proof (rule properties_for_sort [symmetric])
  show "mset (map f (sort_key f xs)) = mset (map f xs)" by simp
  show "sorted (map f (sort_key f xs))" by simp
qed

lemma sort_mset_cong: "mset xs = mset ys \<Longrightarrow> sort xs = sort ys"
  by (rule properties_for_sort) simp_all


lemma freq_obj_entry:
  assumes "p \<in> set (freq_obj ts)"
  shows "is_Num (snd p) \<and> or_zero (get_prop (freq_obj ts) (fst p)) = snd p
       \<and> Num (- entry_key p) = snd p"
proof -
  from assms obtain w where w: "w \<in> set ts" and p: "p = (w, Num (real (count_list ts w)))"
    by (auto simp: freq_obj_def)
  then show ?thesis
    by (simp add: is_Num_def get_prop_def map_of_freq_obj or_zero_def entry_key_def)
qed

lemma map_entry_key_freq_obj:
  "map entry_key (freq_obj ts) = map (\<lambda>w. - real (count_list ts w)) (first_seen ts)"
  by (simp add: freq_obj_def entry_key_def comp_def)

lemma top_words_counts:
  "map (\<lambda>w. or_zero (get_prop (freq_obj ts) w))
     (map fst (take 100 (js_sort (\<lambda>a b. js_minus (snd b) (snd a)) (Object_entries (freq_obj ts)))))
   = map (\<lambda>w. Num (real (count_list ts w)))
       (take 100 (sort_key (\<lambda>w. - real (count_list ts w)) (first_seen ts)))"
proof -
  let ?W = "freq_obj ts"
  let ?E = "Object_entries ?W"
  let ?S = "sort_key entry_key ?E"
  let ?kr = "\<lambda>w. - real (count_list ts w)"
  have setE: "set ?E = set ?W"
    using mset_Object_entries [of ?W] by (rule mset_eq_setD)
  have numE: "\<forall>p \<in> set ?E. is_Num (snd p)"
    using freq_obj_entry [of _ ts] setE by blast
  have S: "js_sort (\<lambda>a b. js_minus (snd b) (snd a)) ?E = ?S"
    using numE by (rule js_sort_sort_key)
  have inS: "p \<in> set ?W" if "p \<in> set (take 100 ?S)" for p
    using in_set_takeD [OF that] setE by simp
  have emb: "map (\<lambda>w. or_zero (get_prop ?W w)) (map fst (take 100 ?S))
      = map (\<lambda>p. Num (- entry_key p)) (take 100 ?S)"
  proof -
    have "or_zero (get_prop ?W (fst p)) = Num (- entry_key p)" if "p \<in> set (take 100 ?S)" for p
      using inS [OF that] freq_obj_entry [of p ts] by simp
    then show ?thesis by (simp add: comp_def)
  qed
  have "map entry_key ?S = sort (map entry_key ?E)" by (rule map_key_sort_key)
  also have "\<dots> = sort (map entry_key ?W)"
    by (rule sort_mset_cong) (simp add: mset_Object_entries)
  also have "\<dots> = sort (map ?kr (first_seen ts))"
    by (simp only: map_entry_key_freq_obj)
  also have "\<dots> = map ?kr (sort_key ?kr (first_seen ts))"
    by (rule map_key_sort_key [symmetric])
  finally have keys: "map entry_key ?S = map ?kr (sort_key ?kr (first_seen ts))" .
  have "map (\<lambda>p. Num (- entry_key p)) (take 100 ?S)
      = take 100 (map (\<lambda>k. Num (- k)) (map entry_key ?S))"
    by (simp add: take_map comp_def)
  also have "\<dots> = take 100 (map (\<lambda>k. Num (- k)) (map ?kr (sort_key ?kr (first_seen ts))))"
    by (simp only: keys)
  also have "\<dots> = map (\<lambda>w. Num (real (count_list ts w))) (take 100 (sort_key ?kr (first_seen ts)))"
    by (simp add: take_map comp_def)
  finally have counts: "map (\<lambda>p. Num (- entry_key p)) (take 100 ?S)
      = map (\<lambda>w. Num (real (count_list ts w))) (take 100 (sort_key ?kr (first_seen ts)))" .
  show ?thesis by (simp only: S emb counts)
qed

text \<open>
  On every text none of whose counted words is a name that a plain object inherits, the
  fallback embedding is the reference bag of words. (The order in which the counting object
  lists its entries differs from the first-seen order for words that are array indices, but
  words of equal count contribute equal components.)
\<close>

theorem createSimpleEmbedding_refines:
  assumes "\<forall>w \<in> set (match_words (toLowerCase text)).
             2 < length w \<longrightarrow> Object_prototype w = None"
  shows "createSimpleEmbedding text = bag_of_words text"
proof -
  have W: "fold (\<lambda>w obj. count_word obj w) (match_words (toLowerCase text)) []
      = freq_obj (filter (\<lambda>w. 2 < length w) (match_words (toLowerCase text)))"
    using assms by (rule wordFreq_is_freq_obj)
  show ?thesis
    unfolding createSimpleEmbedding_def bag_of_words_def Let_def
    by (simp only: W top_words_counts)
qed

text \<open>
  C7 (the fallback embedding is the reference bag of words on every text) fails at the text
  \<open>constructor\<close>: the word is a member that the counting object inherits, so its count
  starts from that member instead of zero and the first component of the embedding is a
  string, where the reference bag of words has the count 1. The word \<open>__proto__\<close> is not
  counted at all.
\<close>

theorem createSimpleEmbedding_constructor:
  "createSimpleEmbedding ''constructor''
     = Str ''function Object() { [native code] }1'' # replicate 767 (Num 0)
   \<and> bag_of_words ''constructor'' = Num 1 # replicate 767 (Num 0)
   \<and> createSimpleEmbedding ''constructor'' \<noteq> bag_of_words ''constructor''
   \<and> createSimpleEmbedding ''__proto__'' = replicate 768 (Num 0)
   \<and> bag_of_words ''__proto__'' = Num 1 # replicate 767 (Num 0)"
  by code_simp

section \<open>Ingestion\<close>

lemma make_points_index:
  "map (\<lambda>p. (point_id p, payload p)) (make_points start batch vs)
     = zip [start..<start + length batch] batch"
proof -
  have "map (\<lambda>p. (point_id p, payload p)) (make_points start batch vs)
      = map (\<lambda>(a, idx). (start + idx, a)) (zip batch [0..<length batch])"
    by (simp add: make_points_def split_def)
  also have "\<dots> = zip [start..<start + length batch] batch"
  proof (induction batch rule: rev_induct)
    case Nil
    then show ?case by simp
  next
    case (snoc x xs)
    then show ?case by simp
  qed
  finally show ?thesis .
qed

lemma make_points_vectors:
  "map point_vector (make_points start batch vs) = map (nth_opt vs) [0..<length batch]"
proof -
  have "map point_vector (make_points start batch vs)
      = map (\<lambda>(a, idx). nth_opt vs idx) (zip batch [0..<length batch])"
    by (simp add: make_points_def split_def)
  also have "\<dots> = map (nth_opt vs \<circ> snd) (zip batch [0..<length batch])"
    by (simp add: split_def comp_def)
  also have "\<dots> = map (nth_opt vs) (map snd (zip batch [0..<length batch]))"
    by (simp only: map_map)
  also have "\<dots> = map (nth_opt vs) [0..<length batch]" by simp
  finally show ?thesis .
qed

lemma batch_at_take_drop: "batch_at B arts j = take B (drop (j * B) arts)"
  by (simp add: batch_at_def slice_def min_def) 

lemma take_upt_min: "take m [a..<n] = [a..<a + min m (n - a)]"
proof (cases "a + m \<le> n")
  case True
  then show ?thesis by (simp add: min_def)
next
  case False
  then have "take m [a..<n] = [a..<n]" by simp
  moreover have "[a..<a + min m (n - a)] = [a..<n]"
  proof (cases "a \<le> n")
    case True
    with False show ?thesis by (simp add: min_def)
  next
    case False
    then show ?thesis by simp
  qed
  ultimately show ?thesis by simp
qed

lemma zip_upt_chunk:
  "zip [j * B..<j * B + length (take B (drop (j * B) arts))] (take B (drop (j * B) arts))
     = take B (drop (j * B) (zip [0..<length arts] arts))"
  by (simp add: take_zip drop_zip take_upt_min min.commute)

lemma chunk_step:
  assumes "i < t"
  shows "take B (drop (i * B) zs) @ drop (i * B + B) (take (t * B) zs)
       = drop (i * B) (take (t * B) zs)"
proof -
  from assms have "Suc i \<le> t" by simp
  then have "Suc i * B \<le> t * B" by (rule mult_le_mono1)
  then have le: "B \<le> t * B - i * B" by simp
  let ?ys = "drop (i * B) (take (t * B) zs)"
  have "take B ?ys = take B (drop (i * B) zs)"
    using le by (simp add: drop_take min_def)
  moreover have "drop B ?ys = drop (i * B + B) (take (t * B) zs)"
    by (simp add: add.commute)
  ultimately show ?thesis
    using append_take_drop_id [of B ?ys] by simp
qed


lemma trace_reading_simps [simp]:
  "embed_calls [] = []" "embed_calls (ev # tr) = embed_call ev @ embed_calls tr"
  "embed_calls (tr @ tr') = embed_calls tr @ embed_calls tr'"
  "upserted [] = []" "upserted (ev # tr) = upserted_by ev @ upserted tr"
  "upserted (tr @ tr') = upserted tr @ upserted tr'"
  "upsert_failures [] = []" "upsert_failures (ev # tr) = upsert_failure ev @ upsert_failures tr"
  "upsert_failures (tr @ tr') = upsert_failures tr @ upsert_failures tr'"
  by (simp_all add: embed_calls_def upserted_def upsert_failures_def)

lemma nth_opt_map_upt:
  "map (nth_opt (map f xs)) [0..<length xs] = map (\<lambda>x. Some (f x)) xs"
proof (rule nth_equalityI)
  show "length (map (nth_opt (map f xs)) [0..<length xs]) = length (map (\<lambda>x. Some (f x)) xs)"
    by simp
next
  fix i
  assume "i < length (map (nth_opt (map f xs)) [0..<length xs])"
  then have "i < length xs" by simp
  then show "map (nth_opt (map f xs)) [0..<length xs] ! i = map (\<lambda>x. Some (f x)) xs ! i"
    by (simp add: nth_opt_def)
qed

lemma make_points_payload: "map payload (make_points start batch vs) = batch"
proof -
  have "map snd (map (\<lambda>p. (point_id p, payload p)) (make_points start batch vs)) = batch"
    by (simp only: make_points_index) simp
  then show ?thesis by (simp add: comp_def)
qed

lemma ingestion_ok_batch:
  fixes batch :: "article list"
  assumes body: "body = (if JINA_API_KEY env = None \<or> JINA_API_KEY env = Some []
                   then Inl (Error ''No Jina API key'')
                   else jina_post env n (map (take 8000) (map fullText batch)))"
      and vs: "vs = (case body of Inl e \<Rightarrow> map createSimpleEmbedding (map fullText batch)
                                | Inr vs \<Rightarrow> vs)"
  shows "ingestion_ok env n
           (JinaEmbed (map fullText batch) (case body of Inl e \<Rightarrow> Some e | Inr u \<Rightarrow> None) (Inr vs)
            # QdrantUpsert (make_points start batch vs)
                (upsert_reply env (Suc n) (make_points start batch vs))
            # tr)
       = ((upsert_reply env (Suc n) (make_points start batch vs) \<noteq> None \<longrightarrow> tr = [])
          \<and> ingestion_ok env (n + 2) tr)"
proof -
  let ?ps = "make_points start batch vs"
  let ?texts = "map fullText batch"
  have "map (\<lambda>p. fullText (payload p)) ?ps = map fullText (map payload ?ps)"
    by (simp add: comp_def)
  then have pl: "map (\<lambda>p. fullText (payload p)) ?ps = ?texts"
    by (simp only: make_points_payload)
  have pv: "map point_vector ?ps = map (nth_opt vs) [0..<length ?texts]"
    by (simp add: make_points_vectors)
  have head: "(case (if JINA_API_KEY env = None \<or> JINA_API_KEY env = Some []
                then Inl (Error ''No Jina API key'')
                else jina_post env n (map (take 8000) ?texts)) of
           Inl e \<Rightarrow>
             (case body of Inl e \<Rightarrow> Some e | Inr u \<Rightarrow> None) = Some e
           \<and> (Inr vs :: error + embedding list) = Inr (map createSimpleEmbedding ?texts)
           \<and> map point_vector ?ps = map (\<lambda>t. Some (createSimpleEmbedding t)) ?texts
         | Inr ws \<Rightarrow>
             (case body of Inl e \<Rightarrow> Some e | Inr u \<Rightarrow> None) = None \<and> (Inr vs :: error + embedding list) = Inr ws
           \<and> map point_vector ?ps = map (nth_opt ws) [0..<length ?texts])"
  proof (cases body)
    case (Inl e)
    with vs have v: "vs = map createSimpleEmbedding ?texts" by simp
    have "map point_vector ?ps = map (nth_opt (map createSimpleEmbedding ?texts)) [0..<length ?texts]"
      using pv by (simp only: v)
    then have "map point_vector ?ps = map (\<lambda>t. Some (createSimpleEmbedding t)) ?texts"
      by (simp only: nth_opt_map_upt)
    with Inl v show ?thesis by (simp only: body [symmetric]) simp
  next
    case (Inr ws)
    with vs have v: "vs = ws" by simp
    with Inr pv show ?thesis by (simp only: body [symmetric]) simp
  qed
  show ?thesis
    by (simp only: ingestion_ok.simps pl head) simp
qed

lemma process_batch_run:
  "\<exists>st1 b vs ro.
     process_batch cfg env st i = ((case ro of None \<Rightarrow> Inr () | Some e \<Rightarrow> Inl e), st1)
   \<and> newsArticles st1 = newsArticles st
   \<and> trace st1 = trace st @
        [JinaEmbed (map fullText (batch_at (BATCH_SIZE cfg) (newsArticles st) i)) b (Inr vs),
         QdrantUpsert
           (make_points (i * BATCH_SIZE cfg) (batch_at (BATCH_SIZE cfg) (newsArticles st) i) vs) ro]
   \<and> (\<forall>tr. (ro \<noteq> None \<longrightarrow> tr = []) \<and> ingestion_ok env (length (trace st) + 2) tr
         \<longrightarrow> ingestion_ok env (length (trace st))
         (JinaEmbed (map fullText (batch_at (BATCH_SIZE cfg) (newsArticles st) i)) b (Inr vs)
          # QdrantUpsert
              (make_points (i * BATCH_SIZE cfg) (batch_at (BATCH_SIZE cfg) (newsArticles st) i) vs) ro
          # tr))
   \<and> ((\<forall>n ps. upsert_reply env n ps = None) \<longrightarrow> ro = None)"
proof -
  let ?batch = "batch_at (BATCH_SIZE cfg) (newsArticles st) i"
  let ?texts = "map fullText ?batch"
  let ?body = "jina_request env st ?texts"
  let ?vs = "case ?body of Inl e \<Rightarrow> map createSimpleEmbedding ?texts | Inr vs \<Rightarrow> vs"
  let ?b = "case ?body of Inl e \<Rightarrow> Some e | Inr u \<Rightarrow> None"
  let ?ps = "make_points (i * BATCH_SIZE cfg) ?batch ?vs"
  let ?ro = "upsert_reply env (Suc (length (trace st))) ?ps"
  let ?st1 = "snd (process_batch cfg env st i)"
  have emb: "getJinaBatchEmbeddings env st ?texts
      = (Inr ?vs, log_event (JinaEmbed ?texts ?b (Inr ?vs)) st)"
    by (simp add: getJinaBatchEmbeddings_def Let_def try_catch_def split: sum.splits)
  have pb: "process_batch cfg env st i
      = qdrant_upsert env (log_event (JinaEmbed ?texts ?b (Inr ?vs)) st) ?ps"
    using emb by (simp add: process_batch_def Let_def batch_at_def)
  have run: "process_batch cfg env st i = ((case ?ro of None \<Rightarrow> Inr () | Some e \<Rightarrow> Inl e), ?st1)"
    by (simp add: pb qdrant_upsert_def split: option.splits)
  have na: "newsArticles ?st1 = newsArticles st"
    by (simp add: pb qdrant_upsert_def split: option.splits)
  have tr: "trace ?st1 = trace st @ [JinaEmbed ?texts ?b (Inr ?vs), QdrantUpsert ?ps ?ro]"
    by (simp add: pb qdrant_upsert_def split: option.splits)
  have eq: "ingestion_ok env (length (trace st))
         (JinaEmbed ?texts ?b (Inr ?vs) # QdrantUpsert ?ps ?ro # tr)
        = ((?ro \<noteq> None \<longrightarrow> tr = []) \<and> ingestion_ok env (length (trace st) + 2) tr)" for tr
    by (rule ingestion_ok_batch) (simp_all add: jina_request_def)
  have ok: "\<forall>tr. (?ro \<noteq> None \<longrightarrow> tr = []) \<and> ingestion_ok env (length (trace st) + 2) tr
         \<longrightarrow> ingestion_ok env (length (trace st))
               (JinaEmbed ?texts ?b (Inr ?vs) # QdrantUpsert ?ps ?ro # tr)"
    by (simp only: eq) simp
  have allok: "(\<forall>n ps. upsert_reply env n ps = None) \<longrightarrow> ?ro = None" by simp
  from run na tr ok allok show ?thesis
    by (intro exI [of _ ?st1] exI [of _ ?b] exI [of _ ?vs] exI [of _ ?ro] conjI) assumption+
qed

lemma batch_loop_run:
  "\<exists>r st' tr.
     batch_loop cfg env (Finite t) i st = Some (r, st')
   \<and> newsArticles st' = newsArticles st
   \<and> trace st' = trace st @ tr
   \<and> ingestion_ok env (length (trace st)) tr
   \<and> ((\<forall>n ps. upsert_reply env n ps = None) \<longrightarrow> upsert_failures tr = [])
   \<and> (case r of
         Inl e \<Rightarrow> upsert_failures tr = [e]
       | Inr u \<Rightarrow>
           upsert_failures tr = []
         \<and> embed_calls tr
             = map (\<lambda>j. map fullText (batch_at (BATCH_SIZE cfg) (newsArticles st) j)) [i..<t]
         \<and> map (\<lambda>p. (point_id p, payload p)) (upserted tr)
             = drop (i * BATCH_SIZE cfg)
                 (take (t * BATCH_SIZE cfg)
                    (zip [0..<length (newsArticles st)] (newsArticles st))))"
proof (induction "t - i" arbitrary: i st)
  case 0
  then have "t \<le> i" by simp
  then have "t * BATCH_SIZE cfg \<le> i * BATCH_SIZE cfg" by (rule mult_le_mono1)
  moreover have "length (take (t * BATCH_SIZE cfg)
                    (zip [0..<length (newsArticles st)] (newsArticles st))) \<le> t * BATCH_SIZE cfg"
    by simp
  ultimately have "length (take (t * BATCH_SIZE cfg)
                    (zip [0..<length (newsArticles st)] (newsArticles st))) \<le> i * BATCH_SIZE cfg"
    by (rule order_trans [rotated])
  then have "drop (i * BATCH_SIZE cfg)
                 (take (t * BATCH_SIZE cfg)
                    (zip [0..<length (newsArticles st)] (newsArticles st))) = []"
    by (rule drop_all)
  moreover have "batch_loop cfg env (Finite t) i st = Some (Inr (), st)"
    using \<open>t \<le> i\<close> by (subst batch_loop.simps) (simp add: js_less_def)
  ultimately show ?case using \<open>t \<le> i\<close> by (intro exI [of _ "Inr ()"] exI [of _ st] exI [of _ "[]"]) simp
next
  case (Suc d)
  then have lt: "i < t" and d: "d = t - Suc i" by simp_all
  let ?B = "BATCH_SIZE cfg"
  let ?arts = "newsArticles st"
  let ?zs = "zip [0..<length ?arts] ?arts"
  from process_batch_run [of cfg env st i]
  obtain st1 b vs ro where
    pb: "process_batch cfg env st i = ((case ro of None \<Rightarrow> Inr () | Some e \<Rightarrow> Inl e), st1)"
    and na: "newsArticles st1 = ?arts"
    and tr1: "trace st1 = trace st @
        [JinaEmbed (map fullText (batch_at ?B ?arts i)) b (Inr vs),
         QdrantUpsert (make_points (i * ?B) (batch_at ?B ?arts i) vs) ro]"
    and ok: "\<forall>tr. (ro \<noteq> None \<longrightarrow> tr = []) \<and> ingestion_ok env (length (trace st) + 2) tr
         \<longrightarrow> ingestion_ok env (length (trace st))
               (JinaEmbed (map fullText (batch_at ?B ?arts i)) b (Inr vs)
                # QdrantUpsert (make_points (i * ?B) (batch_at ?B ?arts i) vs) ro # tr)"
    and allok: "(\<forall>n ps. upsert_reply env n ps = None) \<longrightarrow> ro = None"
    by (elim exE conjE) (rule that)
  have len1: "length (trace st1) = length (trace st) + 2"
    using tr1 by simp
  show ?case
  proof (cases ro)
    case (Some e)
    have "batch_loop cfg env (Finite t) i st = Some (Inl e, st1)"
      using lt pb Some by (subst batch_loop.simps) (simp add: js_less_def)
    moreover have "ingestion_ok env (length (trace st))
        [JinaEmbed (map fullText (batch_at ?B ?arts i)) b (Inr vs),
         QdrantUpsert (make_points (i * ?B) (batch_at ?B ?arts i) vs) ro]"
      by (rule ok [rule_format]) simp
    ultimately show ?thesis
      using na tr1 allok Some
      by (intro exI [of _ "Inl e"] exI [of _ st1]
            exI [of _ "[JinaEmbed (map fullText (batch_at ?B ?arts i)) b (Inr vs),
               QdrantUpsert (make_points (i * ?B) (batch_at ?B ?arts i) vs) ro]"])
         (simp del: ingestion_ok.simps)
  next
    case None
    from Suc.hyps(1) [OF d, of st1]
    obtain r st' tr where
      run: "batch_loop cfg env (Finite t) (Suc i) st1 = Some (r, st')"
      and na': "newsArticles st' = newsArticles st1"
      and tr': "trace st' = trace st1 @ tr"
      and io': "ingestion_ok env (length (trace st1)) tr"
      and allok': "(\<forall>n ps. upsert_reply env n ps = None) \<longrightarrow> upsert_failures tr = []"
      and res: "(case r of
         Inl e \<Rightarrow> upsert_failures tr = [e]
       | Inr u \<Rightarrow>
           upsert_failures tr = []
         \<and> embed_calls tr
             = map (\<lambda>j. map fullText (batch_at ?B (newsArticles st1) j)) [Suc i..<t]
         \<and> map (\<lambda>p. (point_id p, payload p)) (upserted tr)
             = drop (Suc i * ?B)
                 (take (t * ?B) (zip [0..<length (newsArticles st1)] (newsArticles st1))))"
      by blast
    let ?tr = "[JinaEmbed (map fullText (batch_at ?B ?arts i)) b (Inr vs),
               QdrantUpsert (make_points (i * ?B) (batch_at ?B ?arts i) vs) ro] @ tr"
    have loop: "batch_loop cfg env (Finite t) i st = Some (r, st')"
      using lt pb None run by (subst batch_loop.simps) (simp add: js_less_def)
    have pts: "map (\<lambda>p. (point_id p, payload p)) (make_points (i * ?B) (batch_at ?B ?arts i) vs)
        = take ?B (drop (i * ?B) ?zs)"
      by (simp only: make_points_index batch_at_take_drop zip_upt_chunk)
    have final: "(case r of
         Inl e \<Rightarrow> upsert_failures ?tr = [e]
       | Inr u \<Rightarrow>
           upsert_failures ?tr = []
         \<and> embed_calls ?tr = map (\<lambda>j. map fullText (batch_at ?B ?arts j)) [i..<t]
         \<and> map (\<lambda>p. (point_id p, payload p)) (upserted ?tr)
             = drop (i * ?B) (take (t * ?B) ?zs))"
    proof (cases r)
      case (Inl e)
      with res None show ?thesis by simp
    next
      case (Inr u)
      with res na have
        f: "upsert_failures tr = []"
        and c: "embed_calls tr = map (\<lambda>j. map fullText (batch_at ?B ?arts j)) [Suc i..<t]"
        and u: "map (\<lambda>p. (point_id p, payload p)) (upserted tr)
             = drop (Suc i * ?B) (take (t * ?B) ?zs)"
        by simp_all
      have "map (\<lambda>p. (point_id p, payload p)) (upserted ?tr)
          = take ?B (drop (i * ?B) ?zs) @ drop (i * ?B + ?B) (take (t * ?B) ?zs)"
        using None pts u by (simp add: add.commute)
      then have "map (\<lambda>p. (point_id p, payload p)) (upserted ?tr)
          = drop (i * ?B) (take (t * ?B) ?zs)"
        using chunk_step [OF lt, of ?B ?zs] by simp
      moreover have "embed_calls ?tr = map (\<lambda>j. map fullText (batch_at ?B ?arts j)) [i..<t]"
        using c lt by (simp add: upt_conv_Cons)
      moreover have "upsert_failures ?tr = []" using f None by simp
      ultimately show ?thesis using Inr by simp
    qed
    have "trace st' = trace st @ ?tr" using tr1 tr' by simp
    moreover have "ingestion_ok env (length (trace st)) ?tr"
    proof -
      from io' len1 have "ingestion_ok env (length (trace st) + 2) tr" by simp
      with None have "ingestion_ok env (length (trace st))
          (JinaEmbed (map fullText (batch_at ?B ?arts i)) b (Inr vs)
           # QdrantUpsert (make_points (i * ?B) (batch_at ?B ?arts i) vs) ro # tr)"
        by (intro ok [rule_format]) simp
      then show ?thesis by (simp del: ingestion_ok.simps)
    qed
    moreover have "(\<forall>n ps. upsert_reply env n ps = None) \<longrightarrow> upsert_failures ?tr = []"
      using allok' None by simp
    moreover have "newsArticles st' = ?arts" using na na' by simp
    ultimately show ?thesis
      using loop final
      by (intro exI [of _ r] exI [of _ st'] exI [of _ ?tr]) (intro conjI; assumption)
  qed
qed


lemma ceil_div:
  assumes "0 < b"
  shows "nat \<lceil>real n / real b\<rceil> = (n + b - 1) div b"
proof -
  let ?z = "(n + b - 1) div b"
  have "n + b - 1 < b + ?z * b"
    using assms by (rule dividend_less_div_times)
  then have 1: "n \<le> ?z * b" using assms by arith
  have "?z * b \<le> n + b - 1" by (rule div_times_less_eq_dividend)
  then have 2: "?z * b < n + b" using assms by arith
  have "\<lceil>real n / real b\<rceil> = int ?z"
  proof (rule ceiling_unique)
    have "real (?z * b) < real (n + b)" using 2 by (simp only: of_nat_less_iff)
    then have "(real ?z - 1) * real b < real n" by (simp add: algebra_simps)
    then show "real_of_int (int ?z) - 1 < real n / real b"
      using assms by (simp add: pos_less_divide_eq)
    have "real n \<le> real (?z * b)" using 1 by (simp only: of_nat_le_iff)
    then show "real n / real b \<le> real_of_int (int ?z)"
      using assms by (simp add: pos_divide_le_eq)
  qed
  then show ?thesis by simp
qed

lemma ceil_div_covers:
  assumes "0 < b"
  shows "n \<le> nat \<lceil>real n / real b\<rceil> * b"
proof -
  have "n + b - 1 < b + (n + b - 1) div b * b"
    using assms by (rule dividend_less_div_times)
  then have "n \<le> (n + b - 1) div b * b" using assms by arith
  then show ?thesis using assms by (simp only: ceil_div)
qed

lemma concat_batches: "concat (map (batch_at B arts) [0..<t]) = take (t * B) arts"
proof (induction t)
  case 0
  then show ?case by simp
next
  case (Suc t)
  have "Suc t * B = t * B + B" by simp
  then have "take (Suc t * B) arts = take (t * B) arts @ take B (drop (t * B) arts)"
    by (simp only: take_add)
  with Suc show ?case by (simp add: batch_at_take_drop)
qed

lemma createArticleEmbeddings_run:
  assumes "0 < BATCH_SIZE cfg"
  shows "\<exists>r st' tr.
     createArticleEmbeddings cfg env st = Some (r, st')
   \<and> trace st' = trace st @ tr
   \<and> ingestion_ok env (length (trace st)) tr
   \<and> ((\<forall>n ps. upsert_reply env n ps = None) \<longrightarrow> upsert_failures tr = [])
   \<and> (case r of
         Inl e \<Rightarrow> upsert_failures tr = [e]
       | Inr n \<Rightarrow>
           n = length (newsArticles st)
         \<and> upsert_failures tr = []
         \<and> embed_calls tr
             = map (\<lambda>j. map fullText (batch_at (BATCH_SIZE cfg) (newsArticles st) j))
                 [0..<nat \<lceil>real (length (newsArticles st)) / real (BATCH_SIZE cfg)\<rceil>]
         \<and> map (\<lambda>p. (point_id p, payload p)) (upserted tr)
             = zip [0..<length (newsArticles st)] (newsArticles st))"
proof -
  let ?B = "BATCH_SIZE cfg"
  let ?N = "length (newsArticles st)"
  let ?t = "nat \<lceil>real ?N / real ?B\<rceil>"
  have total: "Math_ceil_div ?N ?B = Finite ?t"
    using assms by (simp add: Math_ceil_div_def ceil_div)
  have cover: "?N \<le> ?t * ?B" using assms by (rule ceil_div_covers)
  from batch_loop_run [of cfg env ?t 0 st]
  obtain r st' tr where
    run: "batch_loop cfg env (Finite ?t) 0 st = Some (r, st')"
    and na: "newsArticles st' = newsArticles st"
    and tr: "trace st' = trace st @ tr"
    and io: "ingestion_ok env (length (trace st)) tr"
    and allok: "(\<forall>n ps. upsert_reply env n ps = None) \<longrightarrow> upsert_failures tr = []"
    and res: "(case r of
         Inl e \<Rightarrow> upsert_failures tr = [e]
       | Inr u \<Rightarrow>
           upsert_failures tr = []
         \<and> embed_calls tr = map (\<lambda>j. map fullText (batch_at ?B (newsArticles st) j)) [0..<?t]
         \<and> map (\<lambda>p. (point_id p, payload p)) (upserted tr)
             = drop (0 * ?B) (take (?t * ?B) (zip [0..<?N] (newsArticles st))))"
    by blast
  show ?thesis
  proof (cases r)
    case (Inl e)
    then have "createArticleEmbeddings cfg env st = Some (Inl e, st')"
      using run total by (simp add: createArticleEmbeddings_def)
    then show ?thesis
      using tr io allok res Inl
      by (intro exI [of _ "Inl e"] exI [of _ st'] exI [of _ tr]) simp
  next
    case (Inr u)
    then have "createArticleEmbeddings cfg env st = Some (Inr ?N, st')"
      using run total na by (simp add: createArticleEmbeddings_def)
    moreover have "take (?t * ?B) (zip [0..<?N] (newsArticles st)) = zip [0..<?N] (newsArticles st)"
      using cover by simp
    ultimately show ?thesis
      using tr io allok res Inr
      by (intro exI [of _ "Inr ?N"] exI [of _ st'] exI [of _ tr]) simp
  qed
qed


lemma batch_loop_returns_finite:
  assumes ret: "batch_loop cfg env totalBatches i st = Some y"
  shows "(\<forall>n ps. upsert_reply env n ps = None) \<longrightarrow> totalBatches \<noteq> PosInfinity"
proof (rule batch_loop.raw_induct
    [where P = "\<lambda>cfg env totalBatches i st y.
       (\<forall>n ps. upsert_reply env n ps = None) \<longrightarrow> totalBatches \<noteq> PosInfinity", OF _ ret])
  fix loop cfg env totalBatches i st y
  assume IH: "\<And>cfg env totalBatches i st y. loop cfg env totalBatches i st = Some y \<Longrightarrow>
       (\<forall>n ps. upsert_reply env n ps = None) \<longrightarrow> totalBatches \<noteq> PosInfinity"
    and eq: "(if js_less i totalBatches
      then case process_batch cfg env st i of
           (Inl e, st') \<Rightarrow> Some (Inl e, st')
           | (Inr u, st') \<Rightarrow> loop cfg env totalBatches (i + 1) st'
      else Some (Inr (), st)) = Some y"
  show "(\<forall>n ps. upsert_reply env n ps = None) \<longrightarrow> totalBatches \<noteq> PosInfinity"
  proof (intro impI notI)
    assume allok: "\<forall>n ps. upsert_reply env n ps = None"
      and inf: "totalBatches = PosInfinity"
    from process_batch_run [of cfg env st i] allok
    obtain st1 where "process_batch cfg env st i = (Inr (), st1)"
      by auto
    with eq inf have "loop cfg env totalBatches (i + 1) st1 = Some y"
      by (simp add: js_less_def)
    from IH [OF this] allok inf show False by simp
  qed
qed

text \<open>
  With a batch size of zero and at least one article the number of batches is \<open>Infinity\<close>:
  as long as the index accepts the (empty) upserts the run never returns.
\<close>

lemma createArticleEmbeddings_zero_batch_size:
  assumes "BATCH_SIZE cfg = 0" and "newsArticles st \<noteq> []"
      and "\<forall>n ps. upsert_reply env n ps = None"
  shows "createArticleEmbeddings cfg env st = None"
proof (cases "batch_loop cfg env PosInfinity 0 st")
  case None
  with assms(1,2) show ?thesis
    by (simp add: createArticleEmbeddings_def Math_ceil_div_def)
next
  case (Some y)
  from batch_loop_returns_finite [OF Some] assms(3) show ?thesis by simp
qed

text \<open>
  C4: with a positive batch size the ingestion run always returns. When no upsert is
  refused it returns the number of articles; and whenever it returns that number, it has
  called the embedding service exactly \<open>ceil(N/B)\<close> times, once per batch and in the order
  of the articles, and the points that the index accepted carry the ids \<open>0..N-1\<close>: each
  article's point has the article's position in the list as its id, so no id occurs twice.
\<close>

theorem createArticleEmbeddings_batches:
  assumes "0 < BATCH_SIZE cfg"
  shows "\<exists>r st' tr.
     createArticleEmbeddings cfg env st = Some (r, st')
   \<and> trace st' = trace st @ tr
   \<and> ((\<forall>n ps. upsert_reply env n ps = None) \<longrightarrow> r = Inr (length (newsArticles st)))
   \<and> (\<forall>n. r = Inr n \<longrightarrow>
         n = length (newsArticles st)
       \<and> length (embed_calls tr)
           = nat \<lceil>real (length (newsArticles st)) / real (BATCH_SIZE cfg)\<rceil>
       \<and> embed_calls tr
           = map (\<lambda>j. map fullText (batch_at (BATCH_SIZE cfg) (newsArticles st) j))
               [0..<nat \<lceil>real (length (newsArticles st)) / real (BATCH_SIZE cfg)\<rceil>]
       \<and> concat (embed_calls tr) = map fullText (newsArticles st)
       \<and> map point_id (upserted tr) = [0..<length (newsArticles st)]
       \<and> map payload (upserted tr) = newsArticles st
       \<and> distinct (map point_id (upserted tr)))"
proof -
  let ?B = "BATCH_SIZE cfg"
  let ?arts = "newsArticles st"
  let ?N = "length ?arts"
  let ?t = "nat \<lceil>real ?N / real ?B\<rceil>"
  from createArticleEmbeddings_run [OF assms, of env st]
  obtain r st' tr where
    run: "createArticleEmbeddings cfg env st = Some (r, st')"
    and tr: "trace st' = trace st @ tr"
    and allok: "(\<forall>n ps. upsert_reply env n ps = None) \<longrightarrow> upsert_failures tr = []"
    and res: "(case r of
         Inl e \<Rightarrow> upsert_failures tr = [e]
       | Inr n \<Rightarrow>
           n = ?N
         \<and> upsert_failures tr = []
         \<and> embed_calls tr = map (\<lambda>j. map fullText (batch_at ?B ?arts j)) [0..<?t]
         \<and> map (\<lambda>p. (point_id p, payload p)) (upserted tr) = zip [0..<?N] ?arts)"
    by blast
  have ok: "(\<forall>n ps. upsert_reply env n ps = None) \<longrightarrow> r = Inr ?N"
    using allok res by (cases r) auto
  have completed: "\<forall>n. r = Inr n \<longrightarrow>
         n = ?N
       \<and> length (embed_calls tr) = ?t
       \<and> embed_calls tr = map (\<lambda>j. map fullText (batch_at ?B ?arts j)) [0..<?t]
       \<and> concat (embed_calls tr) = map fullText ?arts
       \<and> map point_id (upserted tr) = [0..<?N]
       \<and> map payload (upserted tr) = ?arts
       \<and> distinct (map point_id (upserted tr))"
  proof (intro allI impI)
    fix n
    assume "r = Inr n"
    with res have n: "n = ?N"
      and c: "embed_calls tr = map (\<lambda>j. map fullText (batch_at ?B ?arts j)) [0..<?t]"
      and u: "map (\<lambda>p. (point_id p, payload p)) (upserted tr) = zip [0..<?N] ?arts"
      by simp_all
    have "map fst (map (\<lambda>p. (point_id p, payload p)) (upserted tr)) = [0..<?N]"
      by (simp only: u) simp
    then have ids: "map point_id (upserted tr) = [0..<?N]" by (simp add: comp_def)
    have "map snd (map (\<lambda>p. (point_id p, payload p)) (upserted tr)) = ?arts"
      by (simp only: u) simp
    then have pls: "map payload (upserted tr) = ?arts" by (simp add: comp_def)
    have "concat (embed_calls tr) = map fullText (concat (map (batch_at ?B ?arts) [0..<?t]))"
      by (simp add: c map_concat comp_def)
    also have "\<dots> = map fullText (take (?t * ?B) ?arts)" by (simp only: concat_batches)
    also have "\<dots> = map fullText ?arts"
      using ceil_div_covers [OF assms, of ?N] by simp
    finally have cc: "concat (embed_calls tr) = map fullText ?arts" .
    have len: "length (embed_calls tr) = ?t" by (simp add: c)
    from n len c cc ids pls
    show "n = ?N
       \<and> length (embed_calls tr) = ?t
       \<and> embed_calls tr = map (\<lambda>j. map fullText (batch_at ?B ?arts j)) [0..<?t]
       \<and> concat (embed_calls tr) = map fullText ?arts
       \<and> map point_id (upserted tr) = [0..<?N]
       \<and> map payload (upserted tr) = ?arts
       \<and> distinct (map point_id (upserted tr))"
      by simp
  qed
  from run tr ok completed show ?thesis
    by (intro exI [of _ r] exI [of _ st'] exI [of _ tr]) (intro conjI; assumption)
qed

lemma fallback_vectors_upserted:
  assumes "ingestion_ok env n tr"
      and "JINA_API_KEY env = None \<or> JINA_API_KEY env = Some []
           \<or> (\<forall>n texts. isl (jina_post env n texts))"
  shows "map point_vector (upserted tr)
       = map (\<lambda>p. Some (createSimpleEmbedding (fullText (payload p)))) (upserted tr)"
  using assms
proof (induction env n tr rule: ingestion_ok.induct)
  case (2 env n texts b r ps ro tr)
  from "2.prems" have pl: "map (\<lambda>p. fullText (payload p)) ps = texts"
    and tl: "ingestion_ok env (n + 2) tr"
    by simp_all
  have "map point_vector ps = map (\<lambda>t. Some (createSimpleEmbedding t)) texts"
  proof (cases "JINA_API_KEY env = None \<or> JINA_API_KEY env = Some []")
    case True
    with "2.prems"(1) show ?thesis by auto
  next
    case False
    with "2.prems"(2) have "isl (jina_post env n (map (take 8000) texts))" by blast
    then obtain e where "jina_post env n (map (take 8000) texts) = Inl e"
      by (auto simp: isl_def)
    with "2.prems"(1) False show ?thesis by simp
  qed
  then have "map point_vector ps = map (\<lambda>t. Some (createSimpleEmbedding t)) (map (\<lambda>p. fullText (payload p)) ps)"
    by (simp only: pl)
  then have hd: "map point_vector ps = map (\<lambda>p. Some (createSimpleEmbedding (fullText (payload p)))) ps"
    by (simp add: comp_def)
  from "2.IH" tl "2.prems"(2)
  have "map point_vector (upserted tr)
       = map (\<lambda>p. Some (createSimpleEmbedding (fullText (payload p)))) (upserted tr)"
    by simp
  with hd show ?case by (cases ro) simp_all
qed simp_all

lemma ingestion_ok_failures:
  assumes "ingestion_ok env n tr" and "e \<in> set (upsert_failures tr)"
  shows "\<exists>m ps. upsert_reply env m ps = Some e"
  using assms
proof (induction env n tr rule: ingestion_ok.induct)
  case (2 env n texts b r ps ro tr)
  from "2.prems"(1) have ro: "ro = upsert_reply env (Suc n) ps"
    and tl: "ingestion_ok env (n + 2) tr"
    by simp_all
  show ?case
  proof (cases "e \<in> set (upsert_failures tr)")
    case True
    with tl show ?thesis by (rule "2.IH")
  next
    case False
    with "2.prems"(2) have "ro = Some e" by (cases ro) simp_all
    with ro have "upsert_reply env (Suc n) ps = Some e" by simp
    then show ?thesis by blast
  qed
qed simp_all

lemma ingestion_ok_refused:
  assumes "ingestion_ok env n tr" and "embed_calls tr \<noteq> []"
      and "\<forall>n ps. upsert_reply env n ps \<noteq> None"
  shows "upsert_failures tr \<noteq> []"
  using assms
proof (induction env n tr rule: ingestion_ok.induct)
  case (2 env n texts b r ps ro tr)
  from "2.prems"(1) have ro: "ro = upsert_reply env (Suc n) ps" by simp
  from "2.prems"(3) have "upsert_reply env (Suc n) ps \<noteq> None" by blast
  with ro have "ro \<noteq> None" by simp
  then obtain e where "ro = Some e" by auto
  then show ?case by simp
qed simp_all


text \<open>
  C5: with a positive batch size the ingestion run always returns, and its trace has the
  shape that \<open>ingestion_ok\<close> reads against the environment: whenever the credential is
  missing or the provider fails the request of a chunk, the call for that chunk returns the
  fallback vector of each of its texts and the chunk's points are upserted with these
  vectors, and the run goes on. The run fails exactly with the error of an upsert that the
  index refused, which is an error that the index replied, and nothing is processed after
  that upsert; with at least one article and an index that refuses every upsert, the run
  fails. When no upsert is refused the
  run goes through all \<open>ceil(N/B)\<close> chunks, embeds every text, upserts one point per article
  and returns the number of articles. When every remote request fails, every point that the
  index accepted carries the fallback vector of its article's text.
\<close>

theorem createArticleEmbeddings_error_policy:
  assumes "0 < BATCH_SIZE cfg"
  shows "\<exists>r st' tr.
     createArticleEmbeddings cfg env st = Some (r, st')
   \<and> trace st' = trace st @ tr
   \<and> ingestion_ok env (length (trace st)) tr
   \<and> (\<forall>e. r = Inl e \<longleftrightarrow> e \<in> set (upsert_failures tr))
   \<and> (\<forall>e. r = Inl e \<longrightarrow> (\<exists>m ps. upsert_reply env m ps = Some e))
   \<and> (newsArticles st \<noteq> [] \<and> (\<forall>n ps. upsert_reply env n ps \<noteq> None) \<longrightarrow> (\<exists>e. r = Inl e))
   \<and> (upsert_failures tr = [] \<longrightarrow>
         r = Inr (length (newsArticles st))
       \<and> length (embed_calls tr)
           = nat \<lceil>real (length (newsArticles st)) / real (BATCH_SIZE cfg)\<rceil>
       \<and> concat (embed_calls tr) = map fullText (newsArticles st)
       \<and> map payload (upserted tr) = newsArticles st)
   \<and> ((\<forall>n ps. upsert_reply env n ps = None) \<longrightarrow> upsert_failures tr = [])
   \<and> (JINA_API_KEY env = None \<or> JINA_API_KEY env = Some []
        \<or> (\<forall>n texts. isl (jina_post env n texts))
      \<longrightarrow> map point_vector (upserted tr)
          = map (\<lambda>p. Some (createSimpleEmbedding (fullText (payload p)))) (upserted tr))"
proof -
  let ?B = "BATCH_SIZE cfg"
  let ?arts = "newsArticles st"
  let ?N = "length ?arts"
  let ?t = "nat \<lceil>real ?N / real ?B\<rceil>"
  from createArticleEmbeddings_run [OF assms, of env st]
  obtain r st' tr where
    run: "createArticleEmbeddings cfg env st = Some (r, st')"
    and tr: "trace st' = trace st @ tr"
    and io: "ingestion_ok env (length (trace st)) tr"
    and allok: "(\<forall>n ps. upsert_reply env n ps = None) \<longrightarrow> upsert_failures tr = []"
    and res: "(case r of
         Inl e \<Rightarrow> upsert_failures tr = [e]
       | Inr n \<Rightarrow>
           n = ?N
         \<and> upsert_failures tr = []
         \<and> embed_calls tr = map (\<lambda>j. map fullText (batch_at ?B ?arts j)) [0..<?t]
         \<and> map (\<lambda>p. (point_id p, payload p)) (upserted tr) = zip [0..<?N] ?arts)"
    by blast
  have iff: "\<forall>e. r = Inl e \<longleftrightarrow> e \<in> set (upsert_failures tr)"
    using res by (cases r) auto
  have src: "\<forall>e. r = Inl e \<longrightarrow> (\<exists>m ps. upsert_reply env m ps = Some e)"
    using iff ingestion_ok_failures [OF io] by blast
  have refused: "?arts \<noteq> [] \<and> (\<forall>n ps. upsert_reply env n ps \<noteq> None) \<longrightarrow> (\<exists>e. r = Inl e)"
  proof
    assume a: "?arts \<noteq> [] \<and> (\<forall>n ps. upsert_reply env n ps \<noteq> None)"
    show "\<exists>e. r = Inl e"
    proof (cases r)
      case (Inl e)
      then show ?thesis by blast
    next
      case (Inr n)
      with res have nf: "upsert_failures tr = []"
        and c: "embed_calls tr = map (\<lambda>j. map fullText (batch_at ?B ?arts j)) [0..<?t]"
        by simp_all
      from a have "0 < ?N" by simp
      with ceil_div_covers [OF assms, of ?N] have "?t \<noteq> 0" by (cases "?t = 0") simp_all
      with c have ne: "embed_calls tr \<noteq> []" by simp
      from a have all: "\<forall>n ps. upsert_reply env n ps \<noteq> None" by (rule conjunct2)
      from io ne all have "upsert_failures tr \<noteq> []" by (rule ingestion_ok_refused)
      with nf show ?thesis by simp
    qed
  qed
  have cont: "upsert_failures tr = [] \<longrightarrow>
         r = Inr ?N \<and> length (embed_calls tr) = ?t
       \<and> concat (embed_calls tr) = map fullText ?arts
       \<and> map payload (upserted tr) = ?arts"
  proof
    assume nf: "upsert_failures tr = []"
    with res obtain n where rn: "r = Inr n" by (cases r) auto
    with res have n: "n = ?N"
      and c: "embed_calls tr = map (\<lambda>j. map fullText (batch_at ?B ?arts j)) [0..<?t]"
      and u: "map (\<lambda>p. (point_id p, payload p)) (upserted tr) = zip [0..<?N] ?arts"
      by simp_all
    have "map snd (map (\<lambda>p. (point_id p, payload p)) (upserted tr)) = ?arts"
      by (simp only: u) simp
    then have pls: "map payload (upserted tr) = ?arts" by (simp add: comp_def)
    have "concat (embed_calls tr) = map fullText (concat (map (batch_at ?B ?arts) [0..<?t]))"
      by (simp add: c map_concat comp_def)
    also have "\<dots> = map fullText (take (?t * ?B) ?arts)" by (simp only: concat_batches)
    also have "\<dots> = map fullText ?arts"
      using ceil_div_covers [OF assms, of ?N] by simp
    finally have cc: "concat (embed_calls tr) = map fullText ?arts" .
    have len: "length (embed_calls tr) = ?t" by (simp add: c)
    from rn n len cc pls
    show "r = Inr ?N \<and> length (embed_calls tr) = ?t
       \<and> concat (embed_calls tr) = map fullText ?arts
       \<and> map payload (upserted tr) = ?arts"
      by simp
  qed
  have fbv: "JINA_API_KEY env = None \<or> JINA_API_KEY env = Some []
        \<or> (\<forall>n texts. isl (jina_post env n texts))
      \<longrightarrow> map point_vector (upserted tr)
          = map (\<lambda>p. Some (createSimpleEmbedding (fullText (payload p)))) (upserted tr)"
    using fallback_vectors_upserted [OF io] by blast
  from run tr io iff src refused cont allok fbv show ?thesis
    by (intro exI [of _ r] exI [of _ st'] exI [of _ tr]) (intro conjI; assumption)
qed


lemma cfg_two_batch: "BATCH_SIZE cfg_two = 2" "0 < BATCH_SIZE cfg_two"
  by (simp_all add: cfg_two_def)

lemma st_three_articles: "newsArticles st_three = [article_a, article_b, article_c]"
  by (simp add: st_three_def)

theorem createArticleEmbeddings_batches_witness:
  "0 < BATCH_SIZE cfg_two
   \<and> (\<exists>st' tr. createArticleEmbeddings cfg_two env0 st_three = Some (Inr 3, st')
         \<and> trace st' = trace st_three @ tr
         \<and> embed_calls tr
             = [[fullText article_a, fullText article_b], [fullText article_c]]
         \<and> map point_id (upserted tr) = [0, 1, 2]
         \<and> map payload (upserted tr) = [article_a, article_b, article_c])"
proof -
  have allok: "\<forall>n ps. upsert_reply env0 n ps = None" by (simp add: env0_def)
  from createArticleEmbeddings_batches [OF cfg_two_batch(2), of env0 st_three]
  obtain r st' tr where
    run: "createArticleEmbeddings cfg_two env0 st_three = Some (r, st')"
    and tr: "trace st' = trace st_three @ tr"
    and ok: "(\<forall>n ps. upsert_reply env0 n ps = None) \<longrightarrow> r = Inr (length (newsArticles st_three))"
    and completed: "\<forall>n. r = Inr n \<longrightarrow>
         n = length (newsArticles st_three)
       \<and> length (embed_calls tr)
           = nat \<lceil>real (length (newsArticles st_three)) / real (BATCH_SIZE cfg_two)\<rceil>
       \<and> embed_calls tr
           = map (\<lambda>j. map fullText (batch_at (BATCH_SIZE cfg_two) (newsArticles st_three) j))
               [0..<nat \<lceil>real (length (newsArticles st_three)) / real (BATCH_SIZE cfg_two)\<rceil>]
       \<and> concat (embed_calls tr) = map fullText (newsArticles st_three)
       \<and> map point_id (upserted tr) = [0..<length (newsArticles st_three)]
       \<and> map payload (upserted tr) = newsArticles st_three
       \<and> distinct (map point_id (upserted tr))"
    by blast
  from ok allok have r: "r = Inr 3" by (simp add: st_three_articles)
  have two: "[0..<2] = [0, Suc 0]" by (simp add: upt_rec)
  have three: "[0..<3] = [0, 1, 2]" by (simp add: upt_rec)
  from completed r have
    c: "embed_calls tr = [[fullText article_a, fullText article_b], [fullText article_c]]"
    by (simp add: st_three_articles cfg_two_batch(1) ceil_div two batch_at_def slice_def)
  from completed r have
    i: "map point_id (upserted tr) = [0, 1, 2]"
    and p: "map payload (upserted tr) = [article_a, article_b, article_c]"
    by (simp_all add: st_three_articles three)
  from run r have "createArticleEmbeddings cfg_two env0 st_three = Some (Inr 3, st')" by simp
  with tr c i p cfg_two_batch(2) show ?thesis
    by (intro conjI exI [of _ st'] exI [of _ tr]) assumption+
qed

theorem createArticleEmbeddings_error_policy_witness:
  "0 < BATCH_SIZE cfg_two
   \<and> (\<exists>st' tr. createArticleEmbeddings cfg_two env_jina_down st_three = Some (Inr 3, st')
         \<and> trace st' = trace st_three @ tr
         \<and> ingestion_ok env_jina_down 0 tr
         \<and> length (embed_calls tr) = 2
         \<and> concat (embed_calls tr)
             = [fullText article_a, fullText article_b, fullText article_c]
         \<and> map payload (upserted tr) = [article_a, article_b, article_c]
         \<and> map point_vector (upserted tr)
             = [Some (createSimpleEmbedding (fullText article_a)),
                Some (createSimpleEmbedding (fullText article_b)),
                Some (createSimpleEmbedding (fullText article_c))])
   \<and> (\<exists>st' tr. createArticleEmbeddings cfg_two env_upsert_down st_three
           = Some (Inl (Error ''Service Unavailable''), st')
         \<and> trace st' = trace st_three @ tr
         \<and> ingestion_ok env_upsert_down 0 tr
         \<and> Error ''Service Unavailable'' \<in> set (upsert_failures tr))"
proof -
  have allok: "\<forall>n ps. upsert_reply env_jina_down n ps = None"
    by (simp add: env_jina_down_def env0_def)
  have down: "\<forall>n texts. isl (jina_post env_jina_down n texts)"
    by (simp add: env_jina_down_def)
  have start: "length (trace st_three) = 0"
    by (simp add: st_three_def st0_def)
  from createArticleEmbeddings_error_policy [OF cfg_two_batch(2), of env_jina_down st_three]
  obtain r st' tr where
    run: "createArticleEmbeddings cfg_two env_jina_down st_three = Some (r, st')"
    and tr: "trace st' = trace st_three @ tr"
    and io: "ingestion_ok env_jina_down (length (trace st_three)) tr"
    and cont: "upsert_failures tr = [] \<longrightarrow>
         r = Inr (length (newsArticles st_three))
       \<and> length (embed_calls tr)
           = nat \<lceil>real (length (newsArticles st_three)) / real (BATCH_SIZE cfg_two)\<rceil>
       \<and> concat (embed_calls tr) = map fullText (newsArticles st_three)
       \<and> map payload (upserted tr) = newsArticles st_three"
    and nofail: "(\<forall>n ps. upsert_reply env_jina_down n ps = None) \<longrightarrow> upsert_failures tr = []"
    and fbv: "JINA_API_KEY env_jina_down = None \<or> JINA_API_KEY env_jina_down = Some []
        \<or> (\<forall>n texts. isl (jina_post env_jina_down n texts))
      \<longrightarrow> map point_vector (upserted tr)
          = map (\<lambda>p. Some (createSimpleEmbedding (fullText (payload p)))) (upserted tr)"
    by blast
  from nofail allok cont have r: "r = Inr 3" and n: "length (embed_calls tr) = 2"
    and c: "concat (embed_calls tr) = [fullText article_a, fullText article_b, fullText article_c]"
    and p: "map payload (upserted tr) = [article_a, article_b, article_c]"
    by (simp_all add: st_three_articles cfg_two_batch(1) ceil_div)
  from fbv down have "map point_vector (upserted tr)
      = map (\<lambda>p. Some (createSimpleEmbedding (fullText (payload p)))) (upserted tr)"
    by blast
  also have "\<dots> = map (\<lambda>a. Some (createSimpleEmbedding (fullText a))) (map payload (upserted tr))"
    by (simp add: comp_def)
  also have "\<dots> = [Some (createSimpleEmbedding (fullText article_a)),
                Some (createSimpleEmbedding (fullText article_b)),
                Some (createSimpleEmbedding (fullText article_c))]"
    by (simp only: p) simp
  finally have v: "map point_vector (upserted tr)
      = [Some (createSimpleEmbedding (fullText article_a)),
         Some (createSimpleEmbedding (fullText article_b)),
         Some (createSimpleEmbedding (fullText article_c))]" .
  from io start have io0: "ingestion_ok env_jina_down 0 tr" by simp
  from run r have "createArticleEmbeddings cfg_two env_jina_down st_three = Some (Inr 3, st')"
    by simp
  with tr io0 n c p v have first:
    "\<exists>st' tr. createArticleEmbeddings cfg_two env_jina_down st_three = Some (Inr 3, st')
         \<and> trace st' = trace st_three @ tr
         \<and> ingestion_ok env_jina_down 0 tr
         \<and> length (embed_calls tr) = 2
         \<and> concat (embed_calls tr)
             = [fullText article_a, fullText article_b, fullText article_c]
         \<and> map payload (upserted tr) = [article_a, article_b, article_c]
         \<and> map point_vector (upserted tr)
             = [Some (createSimpleEmbedding (fullText article_a)),
                Some (createSimpleEmbedding (fullText article_b)),
                Some (createSimpleEmbedding (fullText article_c))]"
    by (intro exI [of _ st'] exI [of _ tr] conjI) assumption+
  from createArticleEmbeddings_error_policy [OF cfg_two_batch(2), of env_upsert_down st_three]
  obtain r2 st2 tr2 where
    run2: "createArticleEmbeddings cfg_two env_upsert_down st_three = Some (r2, st2)"
    and tr2: "trace st2 = trace st_three @ tr2"
    and io2: "ingestion_ok env_upsert_down (length (trace st_three)) tr2"
    and iff: "\<forall>e. r2 = Inl e \<longleftrightarrow> e \<in> set (upsert_failures tr2)"
    and src: "\<forall>e. r2 = Inl e \<longrightarrow> (\<exists>m ps. upsert_reply env_upsert_down m ps = Some e)"
    and refused: "newsArticles st_three \<noteq> [] \<and> (\<forall>n ps. upsert_reply env_upsert_down n ps \<noteq> None)
        \<longrightarrow> (\<exists>e. r2 = Inl e)"
    by blast
  have "newsArticles st_three \<noteq> [] \<and> (\<forall>n ps. upsert_reply env_upsert_down n ps \<noteq> None)"
    by (simp add: st_three_articles env_upsert_down_def)
  with refused obtain e where e: "r2 = Inl e" by blast
  with src obtain m ps where "upsert_reply env_upsert_down m ps = Some e" by blast
  then have "e = Error ''Service Unavailable''" by (simp add: env_upsert_down_def)
  with e have r2: "r2 = Inl (Error ''Service Unavailable'')" by simp
  with iff have f2: "Error ''Service Unavailable'' \<in> set (upsert_failures tr2)" by blast
  from io2 start have io20: "ingestion_ok env_upsert_down 0 tr2" by simp
  from run2 r2 have "createArticleEmbeddings cfg_two env_upsert_down st_three
      = Some (Inl (Error ''Service Unavailable''), st2)"
    by simp
  with tr2 io20 f2 have second:
    "\<exists>st' tr. createArticleEmbeddings cfg_two env_upsert_down st_three
           = Some (Inl (Error ''Service Unavailable''), st')
         \<and> trace st' = trace st_three @ tr
         \<and> ingestion_ok env_upsert_down 0 tr
         \<and> Error ''Service Unavailable'' \<in> set (upsert_failures tr)"
    by (intro exI [of _ st2] exI [of _ tr2] conjI) assumption+
  from first second cfg_two_batch(2) show ?thesis by (intro conjI) assumption+
qed


end
